theory Spec2Isabelle
  imports Complex_Main
begin

section \<open>Errors\<close>

text \<open>
  The scripts signal failure by raising. \<open>NoOverlapFound\<close> is the
  \<^verbatim>\<open>raise Exception("No overlapping S1-S2 pair found")\<close> of the ingestion script;
  \<open>ZeroDivisionError\<close> is what Python raises when two Python floats are divided and
  the divisor is zero; \<open>ValueError\<close> is what numpy and skimage raise on an empty
  reduction, on shapes that do not broadcast, and on a float image outside \<open>[-1, 1]\<close>.
\<close>

datatype error = NoOverlapFound | ZeroDivisionError | ValueError

section \<open>Ingestion: selection of the best overlapping pair\<close>

text \<open>
  A catalogue entry is a dictionary; the script reads the keys \<open>Name\<close>, \<open>Id\<close>,
  \<open>ContentLength\<close> and \<open>GeoFootprint\<close>. The footprint is handed to shapely, which is
  not part of the repository: its three operations used by the loop are parameters.
  Areas are Python floats, that is, doubles: each is a real number. The quotient and
  the product of \<open>(intersection.area / geom_s2.area) * 100\<close> are rounded to a double
  each; the rounding is the parameter \<open>rnd\<close>, about which the loop assumes nothing.
  Overflow to an infinity is left out.
\<close>

record 'g product =
  Name :: string
  Id :: string
  ContentLength :: nat
  GeoFootprint :: 'g

record 'g shapely =
  intersection :: "'g \<Rightarrow> 'g \<Rightarrow> 'g"
  is_empty :: "'g \<Rightarrow> bool"
  area :: "'g \<Rightarrow> real"

text \<open>The loop state: \<open>best_pair\<close> (initially \<open>None\<close>) and \<open>best_overlap\<close> (initially 0).\<close>

type_synonym 'g best = "('g product \<times> 'g product) option \<times> real"

text \<open>The body of the inner loop, for one radar product \<open>s1\<close> and one optical product \<open>s2\<close>.\<close>

definition pair_step ::
  "(real \<Rightarrow> real) \<Rightarrow> 'g shapely \<Rightarrow> 'g product \<Rightarrow> 'g product \<Rightarrow> 'g best \<Rightarrow> error + 'g best" where
  "pair_step rnd G s1 s2 st =
     (let geom_s1 = GeoFootprint s1;
          geom_s2 = GeoFootprint s2;
          inter = intersection G geom_s1 geom_s2
      in if \<not> is_empty G inter then
           (if area G geom_s2 = 0 then Inl ZeroDivisionError
            else let overlap = rnd (rnd (area G inter / area G geom_s2) * 100)
                 in if overlap > snd st then Inr (Some (s1, s2), overlap) else Inr st)
         else Inr st)"

fun inner_loop ::
  "(real \<Rightarrow> real) \<Rightarrow> 'g shapely \<Rightarrow> 'g product \<Rightarrow> 'g product list \<Rightarrow> 'g best \<Rightarrow> error + 'g best" where
  "inner_loop rnd G s1 [] st = Inr st"
| "inner_loop rnd G s1 (s2 # data_s2) st =
     (case pair_step rnd G s1 s2 st of
        Inl e \<Rightarrow> Inl e
      | Inr st' \<Rightarrow> inner_loop rnd G s1 data_s2 st')"

fun outer_loop ::
  "(real \<Rightarrow> real) \<Rightarrow> 'g shapely \<Rightarrow> 'g product list \<Rightarrow> 'g product list \<Rightarrow> 'g best \<Rightarrow> error + 'g best" where
  "outer_loop rnd G [] data_s2 st = Inr st"
| "outer_loop rnd G (s1 # data_s1) data_s2 st =
     (case inner_loop rnd G s1 data_s2 st of
        Inl e \<Rightarrow> Inl e
      | Inr st' \<Rightarrow> outer_loop rnd G data_s1 data_s2 st')"

definition selectBestPair ::
  "(real \<Rightarrow> real) \<Rightarrow> 'g shapely \<Rightarrow> 'g product list \<Rightarrow> 'g product list
     \<Rightarrow> error + (('g product \<times> 'g product) \<times> real)" where
  "selectBestPair rnd G data_s1 data_s2 =
     (case outer_loop rnd G data_s1 data_s2 (None, 0) of
        Inl e \<Rightarrow> Inl e
      | Inr (best_pair, best_overlap) \<Rightarrow>
          (case best_pair of
             None \<Rightarrow> Inl NoOverlapFound
           | Some p \<Rightarrow> Inr (p, best_overlap)))"

text \<open>
  A combination overlaps when its intersection is not empty. Its overlap score is the
  double the loop computes for it; a combination that does not overlap is given no
  score by the loop and counts as 0. \<open>divides_by_zero\<close> says that the loop, reaching the
  combination, divides by an optical area of zero. \<open>combos\<close> lists the combinations in
  the order the loops visit them.
\<close>

definition overlaps :: "'g shapely \<Rightarrow> 'g product \<times> 'g product \<Rightarrow> bool" where
  "overlaps G p = (\<not> is_empty G (intersection G (GeoFootprint (fst p)) (GeoFootprint (snd p))))"

definition inter_area :: "'g shapely \<Rightarrow> 'g product \<times> 'g product \<Rightarrow> real" where
  "inter_area G p = area G (intersection G (GeoFootprint (fst p)) (GeoFootprint (snd p)))"

definition overlap_score :: "(real \<Rightarrow> real) \<Rightarrow> 'g shapely \<Rightarrow> 'g product \<times> 'g product \<Rightarrow> real" where
  "overlap_score rnd G p =
     (if overlaps G p then rnd (rnd (inter_area G p / area G (GeoFootprint (snd p))) * 100) else 0)"

definition divides_by_zero :: "'g shapely \<Rightarrow> 'g product \<times> 'g product \<Rightarrow> bool" where
  "divides_by_zero G p = (overlaps G p \<and> area G (GeoFootprint (snd p)) = 0)"

definition combos :: "'g product list \<Rightarrow> 'g product list \<Rightarrow> ('g product \<times> 'g product) list" where
  "combos data_s1 data_s2 = List.product data_s1 data_s2"

text \<open>The loop over a list of combinations, used to reason about the two nested loops at once.\<close>

fun scan ::
  "(real \<Rightarrow> real) \<Rightarrow> 'g shapely \<Rightarrow> ('g product \<times> 'g product) list \<Rightarrow> 'g best \<Rightarrow> error + 'g best" where
  "scan rnd G [] st = Inr st"
| "scan rnd G (p # ps) st =
     (case pair_step rnd G (fst p) (snd p) st of
        Inl e \<Rightarrow> Inl e
      | Inr st' \<Rightarrow> scan rnd G ps st')"

text \<open>
  A sample geometry for checking the model on concrete inputs: axis-parallel rectangles
  \<open>(x0, y0, x1, y1)\<close> with integer corners. A rectangle of width or height 0 is not empty
  and has area 0. Two sample roundings: none at all, and a coarse one that cuts a
  number after its first decimal.
\<close>

type_synonym box = "int \<times> int \<times> int \<times> int"

definition box_inter :: "box \<Rightarrow> box \<Rightarrow> box" where
  "box_inter a b =
     (case a of (ax0, ay0, ax1, ay1) \<Rightarrow> case b of (bx0, by0, bx1, by1) \<Rightarrow>
        (max ax0 bx0, max ay0 by0, min ax1 bx1, min ay1 by1))"

definition box_empty :: "box \<Rightarrow> bool" where
  "box_empty a = (case a of (x0, y0, x1, y1) \<Rightarrow> x1 < x0 \<or> y1 < y0)"

definition box_area :: "box \<Rightarrow> real" where
  "box_area a = (case a of (x0, y0, x1, y1) \<Rightarrow>
     if x1 < x0 \<or> y1 < y0 then 0 else real_of_int ((x1 - x0) * (y1 - y0)))"

definition boxes :: "box shapely" where
  "boxes = \<lparr>intersection = box_inter, is_empty = box_empty, area = box_area\<rparr>"

definition exact :: "real \<Rightarrow> real" where
  "exact x = x"

definition one_decimal :: "real \<Rightarrow> real" where
  "one_decimal x = real_of_int \<lfloor>x * 10\<rfloor> / 10"

definition mk_product :: "string \<Rightarrow> box \<Rightarrow> box product" where
  "mk_product n b = \<lparr>Name = n, Id = n, ContentLength = 0, GeoFootprint = b\<rparr>"

definition radar_a :: "box product" where "radar_a = mk_product ''S1A'' (0, 0, 100, 100)"
definition radar_b :: "box product" where "radar_b = mk_product ''S1B'' (200, 0, 300, 100)"
definition optical_a :: "box product" where "optical_a = mk_product ''S2A'' (49, 0, 149, 100)"
definition optical_b :: "box product" where "optical_b = mk_product ''S2B'' (245, 0, 345, 100)"
definition optical_far :: "box product" where "optical_far = mk_product ''S2C'' (500, 500, 600, 600)"
definition optical_flat :: "box product" where "optical_flat = mk_product ''S2D'' (50, 0, 50, 100)"

section \<open>numpy floats and rasters\<close>

text \<open>
  A numpy float is a number, an infinity or not-a-number. The operations of this section
  are exact on numbers, over the reals; the rounding of each float32 result is added to
  them in the section on rounding below. Overflow is left out, and zero has no sign (a
  non-zero number divided by zero takes the sign of the numerator). What the operations
  keep is how the special values arise and propagate: \<open>0 / 0\<close> is \<open>NaN\<close>, every
  comparison with \<open>NaN\<close> is false, and numpy array arithmetic warns instead of raising.
\<close>

datatype npfloat = NaN | NInf | Fin real | PInf

definition isnan :: "npfloat \<Rightarrow> bool" where
  "isnan v = (case v of NaN \<Rightarrow> True | _ \<Rightarrow> False)"

fun np_less :: "npfloat \<Rightarrow> npfloat \<Rightarrow> bool" where
  "np_less NaN _ = False"
| "np_less _ NaN = False"
| "np_less (Fin a) (Fin b) = (a < b)"
| "np_less NInf NInf = False"
| "np_less NInf _ = True"
| "np_less PInf _ = False"
| "np_less (Fin a) PInf = True"
| "np_less (Fin a) NInf = False"

fun np_neg :: "npfloat \<Rightarrow> npfloat" where
  "np_neg NaN = NaN"
| "np_neg NInf = PInf"
| "np_neg PInf = NInf"
| "np_neg (Fin a) = Fin (- a)"

fun np_add :: "npfloat \<Rightarrow> npfloat \<Rightarrow> npfloat" where
  "np_add NaN _ = NaN"
| "np_add _ NaN = NaN"
| "np_add (Fin a) (Fin b) = Fin (a + b)"
| "np_add PInf NInf = NaN"
| "np_add NInf PInf = NaN"
| "np_add PInf _ = PInf"
| "np_add _ PInf = PInf"
| "np_add NInf _ = NInf"
| "np_add _ NInf = NInf"

definition np_sub :: "npfloat \<Rightarrow> npfloat \<Rightarrow> npfloat" where
  "np_sub a b = np_add a (np_neg b)"

fun np_mul :: "npfloat \<Rightarrow> npfloat \<Rightarrow> npfloat" where
  "np_mul NaN _ = NaN"
| "np_mul _ NaN = NaN"
| "np_mul (Fin a) (Fin b) = Fin (a * b)"
| "np_mul (Fin a) PInf = (if a = 0 then NaN else if 0 < a then PInf else NInf)"
| "np_mul (Fin a) NInf = (if a = 0 then NaN else if 0 < a then NInf else PInf)"
| "np_mul PInf (Fin b) = (if b = 0 then NaN else if 0 < b then PInf else NInf)"
| "np_mul NInf (Fin b) = (if b = 0 then NaN else if 0 < b then NInf else PInf)"
| "np_mul PInf PInf = PInf"
| "np_mul NInf NInf = PInf"
| "np_mul PInf NInf = NInf"
| "np_mul NInf PInf = NInf"

fun np_div :: "npfloat \<Rightarrow> npfloat \<Rightarrow> npfloat" where
  "np_div NaN _ = NaN"
| "np_div _ NaN = NaN"
| "np_div (Fin a) (Fin b) =
     (if b \<noteq> 0 then Fin (a / b) else if a = 0 then NaN else if 0 < a then PInf else NInf)"
| "np_div (Fin a) _ = Fin 0"
| "np_div PInf (Fin b) = (if 0 \<le> b then PInf else NInf)"
| "np_div NInf (Fin b) = (if 0 \<le> b then NInf else PInf)"
| "np_div _ _ = NaN"

definition np_log10 :: "npfloat \<Rightarrow> npfloat" where
  "np_log10 v = (case v of
       NaN \<Rightarrow> NaN
     | NInf \<Rightarrow> NaN
     | PInf \<Rightarrow> PInf
     | Fin x \<Rightarrow> if x < 0 then NaN else if x = 0 then NInf else Fin (log 10 x))"

text \<open>The largest float32, which \<open>np.nan_to_num\<close> puts in the place of an infinity.\<close>

definition float32_max :: real where
  "float32_max = (2 - 1 / 2 ^ 23) * 2 ^ 127"

definition nan_to_num :: "real \<Rightarrow> npfloat \<Rightarrow> real" where
  "nan_to_num nan v = (case v of
       NaN \<Rightarrow> nan
     | Fin x \<Rightarrow> x
     | PInf \<Rightarrow> float32_max
     | NInf \<Rightarrow> - float32_max)"

text \<open>
  A raster is a two-dimensional array, held as the list of its rows; \<open>rect h w\<close> says that
  it has \<open>h\<close> rows of \<open>w\<close> columns each.
\<close>

type_synonym 'a raster = "'a list list"

definition rect :: "nat \<Rightarrow> nat \<Rightarrow> 'a raster \<Rightarrow> bool" where
  "rect h w img = (length img = h \<and> (\<forall>row \<in> set img. length row = w))"

definition shape :: "'a raster \<Rightarrow> nat \<times> nat" where
  "shape img = (length img, if img = [] then 0 else length (hd img))"

text \<open>
  Elementwise operations on two arrays follow numpy's broadcasting: along each axis
  the two extents are equal, or one of them is 1 and that array is repeated; otherwise
  the operation raises \<open>ValueError\<close>.
\<close>

definition bdim :: "nat \<Rightarrow> nat \<Rightarrow> nat option" where
  "bdim m n = (if m = n then Some m else if m = 1 then Some n else if n = 1 then Some m else None)"

definition bidx :: "nat \<Rightarrow> nat \<Rightarrow> nat" where
  "bidx m i = (if m = 1 then 0 else i)"

definition np_binop :: "('a \<Rightarrow> 'b \<Rightarrow> 'c) \<Rightarrow> 'a raster \<Rightarrow> 'b raster \<Rightarrow> error + 'c raster" where
  "np_binop f a b =
     (case (bdim (fst (shape a)) (fst (shape b)), bdim (snd (shape a)) (snd (shape b))) of
        (Some h, Some w) \<Rightarrow>
          Inr (map (\<lambda>i. map (\<lambda>j. f (a ! bidx (fst (shape a)) i ! bidx (snd (shape a)) j)
                                     (b ! bidx (fst (shape b)) i ! bidx (snd (shape b)) j))
                          [0..<w]) [0..<h])
      | _ \<Rightarrow> Inl ValueError)"

section \<open>Sentinel-1: calibration, decibels, masking\<close>

text \<open>
  The window read from the measurement file holds integer digital numbers, cast to
  float32. Steps 1 to 3 of the script: \<open>sigma0_linear = vh / 10000.0\<close>,
  \<open>sigma0_db = 10 * np.log10(sigma0_linear + 1e-10)\<close>, then the two masking
  assignments \<open>sigma0_db[sigma0_db < -40] = np.nan\<close> and
  \<open>sigma0_db[sigma0_db > 5] = np.nan\<close>, in this order.
\<close>

definition eps :: real where
  "eps = 1 / 10 ^ 10"

definition sigma0_db_px :: "int \<Rightarrow> npfloat" where
  "sigma0_db_px vh =
     (let sigma0_linear = real_of_int vh / 10000
      in np_mul (Fin 10) (np_log10 (Fin (sigma0_linear + eps))))"

definition mask_px :: "npfloat \<Rightarrow> npfloat" where
  "mask_px v =
     (let v1 = (if np_less v (Fin (- 40)) then NaN else v)
      in if np_less (Fin 5) v1 then NaN else v1)"

text \<open>A decibel value that the masking keeps: a number between \<open>-40\<close> and \<open>5\<close>.\<close>

definition in_db_range :: "npfloat \<Rightarrow> bool" where
  "in_db_range v = (case v of Fin r \<Rightarrow> - 40 \<le> r \<and> r \<le> 5 | _ \<Rightarrow> False)"

definition sigma0_db :: "int raster \<Rightarrow> npfloat raster" where
  "sigma0_db vh_window = map (map sigma0_db_px) vh_window"

definition mask_db :: "npfloat raster \<Rightarrow> npfloat raster" where
  "mask_db db = map (map mask_px) db"

definition sigma0_db_window :: "int raster \<Rightarrow> npfloat raster" where
  "sigma0_db_window vh_window = mask_db (sigma0_db vh_window)"

section \<open>Sentinel-1: the Lee filter\<close>

text \<open>
  \<open>scipy.ndimage.uniform_filter(a, size=5)\<close> averages over a window of 5 samples
  centred on each position, first along axis 0 and then along axis 1; beyond the border
  the array is continued by reflection (the default mode, \<open>d c b a | a b c d | d c b a\<close>).
  \<open>reflect n j\<close> is the index inside a line of length \<open>n\<close> that position \<open>j\<close> of the
  continued line stands for.
\<close>

definition reflect :: "nat \<Rightarrow> int \<Rightarrow> nat" where
  "reflect n j =
     (let m = j mod (2 * int n)
      in nat (if m < int n then m else 2 * int n - 1 - m))"

definition window_idx :: "nat \<Rightarrow> nat \<Rightarrow> nat \<Rightarrow> nat \<Rightarrow> nat" where
  "window_idx sz n i k = reflect n (int i + int k - int (sz div 2))"

definition filter_axis0 :: "nat \<Rightarrow> real raster \<Rightarrow> real raster" where
  "filter_axis0 sz img =
     map (\<lambda>i. map (\<lambda>j. (\<Sum>k\<leftarrow>[0..<sz]. img ! window_idx sz (length img) i k ! j) / real sz)
                [0..<length (img ! i)])
         [0..<length img]"

definition filter_axis1 :: "nat \<Rightarrow> real raster \<Rightarrow> real raster" where
  "filter_axis1 sz img =
     map (\<lambda>i. map (\<lambda>j. (\<Sum>k\<leftarrow>[0..<sz]. img ! i ! window_idx sz (length (img ! i)) j k) / real sz)
                [0..<length (img ! i)])
         [0..<length img]"

definition uniform_filter :: "nat \<Rightarrow> real raster \<Rightarrow> real raster" where
  "uniform_filter sz img = filter_axis1 sz (filter_axis0 sz img)"

text \<open>\<open>np.var\<close>: the mean of the squared deviations from the mean; \<open>NaN\<close> on an empty array.\<close>

definition np_var :: "real list \<Rightarrow> npfloat" where
  "np_var xs =
     (if xs = [] then NaN
      else let n = real (length xs); m = sum_list xs / n
           in Fin (sum_list (map (\<lambda>x. (x - m)\<^sup>2) xs) / n))"

text \<open>
  One pixel of
  \<open>mean + (variance / (variance + overall_variance)) * (temp - mean)\<close>
  with \<open>variance = mean_sq - mean**2\<close>.
\<close>

definition lee_px :: "real \<Rightarrow> real \<Rightarrow> npfloat \<Rightarrow> real \<Rightarrow> npfloat" where
  "lee_px mean mean_sq overall_variance temp =
     (let variance = mean_sq - mean\<^sup>2
      in np_add (Fin mean)
           (np_mul (np_div (Fin variance) (np_add (Fin variance) overall_variance))
                   (Fin (temp - mean))))"

text \<open>\<open>temp = np.nan_to_num(sigma0_db_window, nan=-40)\<close>\<close>

definition lee_temp :: "npfloat raster \<Rightarrow> real raster" where
  "lee_temp db = map (map (nan_to_num (- 40))) db"

text \<open>
  Step 6B. The last assignment, \<open>lee_filtered[np.isnan(sigma0_db_window)] = np.nan\<close>,
  is the \<open>if\<close> of the pixel.
\<close>

definition lee_filter :: "npfloat raster \<Rightarrow> npfloat raster" where
  "lee_filter db =
     (let temp = lee_temp db;
          mean = uniform_filter 5 temp;
          mean_sq = uniform_filter 5 (map (map (\<lambda>x. x\<^sup>2)) temp);
          overall_variance = np_var (concat temp)
      in map (\<lambda>i. map (\<lambda>j. if isnan (db ! i ! j) then NaN
                            else lee_px (mean ! i ! j) (mean_sq ! i ! j) overall_variance (temp ! i ! j))
                   [0..<length (db ! i)])
             [0..<length db])"

definition radar_lee :: "int raster \<Rightarrow> npfloat raster" where
  "radar_lee vh_window = lee_filter (sigma0_db_window vh_window)"

section \<open>Rounding\<close>

text \<open>
  The arrays are float32: every elementwise operation rounds its result. In the
  definitions above finite arithmetic is exact; they are the case \<open>rnd = exact\<close> of the
  definitions below, in which the rounding of a finite result is a parameter \<open>rnd\<close>.
  The special values are untouched by it. \<open>rounding rnd\<close> collects what round-to-nearest
  gives and the proofs use: it is monotone, leaves a rounded number alone, commutes
  with the sign and keeps 1 and 255. \<open>rel_err rnd u x\<close> says that rounding \<open>x\<close> has a
  relative error of at most \<open>u\<close> (for float32 and a result in the normal range,
  \<open>u = 2^-24\<close>).
\<close>

definition rounding :: "(real \<Rightarrow> real) \<Rightarrow> bool" where
  "rounding rnd =
     ((\<forall>x y. x \<le> y \<longrightarrow> rnd x \<le> rnd y) \<and> (\<forall>x. rnd (rnd x) = rnd x) \<and>
      (\<forall>x. rnd (- x) = - rnd x) \<and> rnd 1 = 1 \<and> rnd 255 = 255)"

definition rel_err :: "(real \<Rightarrow> real) \<Rightarrow> real \<Rightarrow> real \<Rightarrow> bool" where
  "rel_err rnd u x = (\<bar>rnd x - x\<bar> \<le> u * \<bar>x\<bar>)"

definition round_fin :: "(real \<Rightarrow> real) \<Rightarrow> npfloat \<Rightarrow> npfloat" where
  "round_fin rnd v = (case v of Fin x \<Rightarrow> Fin (rnd x) | _ \<Rightarrow> v)"

definition r_add :: "(real \<Rightarrow> real) \<Rightarrow> npfloat \<Rightarrow> npfloat \<Rightarrow> npfloat" where
  "r_add rnd a b = round_fin rnd (np_add a b)"

definition r_sub :: "(real \<Rightarrow> real) \<Rightarrow> npfloat \<Rightarrow> npfloat \<Rightarrow> npfloat" where
  "r_sub rnd a b = round_fin rnd (np_sub a b)"

definition r_mul :: "(real \<Rightarrow> real) \<Rightarrow> npfloat \<Rightarrow> npfloat \<Rightarrow> npfloat" where
  "r_mul rnd a b = round_fin rnd (np_mul a b)"

definition r_div :: "(real \<Rightarrow> real) \<Rightarrow> npfloat \<Rightarrow> npfloat \<Rightarrow> npfloat" where
  "r_div rnd a b = round_fin rnd (np_div a b)"

section \<open>Sentinel-1: the Lee filter in float32\<close>

text \<open>
  What the Lee filter computes with depends on three things outside the script: the
  rounding of the elementwise float32 operations, \<open>scipy.ndimage.uniform_filter\<close> with
  \<open>size=5\<close> (which sums in double precision and stores float32) and \<open>np.var\<close> (which
  sums in float32, pairwise). They are the three fields of \<open>numerics\<close>.
\<close>

record numerics =
  round32 :: "real \<Rightarrow> real"
  filter5 :: "real raster \<Rightarrow> real raster"
  var32 :: "real list \<Rightarrow> npfloat"

definition lee_px_fl :: "(real \<Rightarrow> real) \<Rightarrow> real \<Rightarrow> real \<Rightarrow> npfloat \<Rightarrow> real \<Rightarrow> npfloat" where
  "lee_px_fl rnd mean mean_sq overall_variance temp =
     (let variance = r_sub rnd (Fin mean_sq) (r_mul rnd (Fin mean) (Fin mean))
      in r_add rnd (Fin mean)
           (r_mul rnd (r_div rnd variance (r_add rnd variance overall_variance))
                      (r_sub rnd (Fin temp) (Fin mean))))"

definition lee_filter_fl :: "numerics \<Rightarrow> npfloat raster \<Rightarrow> npfloat raster" where
  "lee_filter_fl N db =
     (let temp = lee_temp db;
          mean = filter5 N temp;
          mean_sq = filter5 N (map (map (\<lambda>x. round32 N (x * x))) temp);
          overall_variance = var32 N (concat temp)
      in map (\<lambda>i. map (\<lambda>j. if isnan (db ! i ! j) then NaN
                            else lee_px_fl (round32 N) (mean ! i ! j) (mean_sq ! i ! j)
                                   overall_variance (temp ! i ! j))
                   [0..<length (db ! i)])
             [0..<length db])"

definition radar_lee_fl :: "numerics \<Rightarrow> int raster \<Rightarrow> npfloat raster" where
  "radar_lee_fl N vh_window = lee_filter_fl N (sigma0_db_window vh_window)"

text \<open>
  Two sample numerics: exact arithmetic, and exact arithmetic whose variance carries
  the rounding noise \<open>2^-44\<close> that float32 \<open>np.var\<close> returns on a constant 5 by 5 window
  of digital number 5000, whose float32 decibel value is \<open>-6313057 / 2097152\<close>.
\<close>

definition exact_numerics :: numerics where
  "exact_numerics = \<lparr>round32 = exact, filter5 = uniform_filter 5, var32 = np_var\<rparr>"

definition noisy_numerics :: numerics where
  "noisy_numerics = \<lparr>round32 = exact, filter5 = uniform_filter 5, var32 = (\<lambda>xs. Fin (1 / 2 ^ 44))\<rparr>"

section \<open>Sentinel-1: texture\<close>

text \<open>
  Step 7 takes \<open>patch = lee_filtered[1000:1200, 1000:1200]\<close>; a slice is clipped to the
  array.
\<close>

definition slice2 :: "nat \<Rightarrow> nat \<Rightarrow> 'a raster \<Rightarrow> 'a raster" where
  "slice2 a b img = map (\<lambda>row. take (b - a) (drop a row)) (take (b - a) (drop a img))"

text \<open>
  \<open>np.nanmin\<close> and \<open>np.nanmax\<close> leave \<open>NaN\<close> out; on an array of \<open>NaN\<close> only they warn
  and return \<open>NaN\<close>, on an empty array they raise \<open>ValueError\<close>.
\<close>

definition np_nanmin :: "npfloat list \<Rightarrow> error + npfloat" where
  "np_nanmin xs =
     (if xs = [] then Inl ValueError
      else case filter (\<lambda>v. \<not> isnan v) xs of
             [] \<Rightarrow> Inr NaN
           | v # vs \<Rightarrow> Inr (fold (\<lambda>x acc. if np_less x acc then x else acc) vs v))"

definition np_nanmax :: "npfloat list \<Rightarrow> error + npfloat" where
  "np_nanmax xs =
     (if xs = [] then Inl ValueError
      else case filter (\<lambda>v. \<not> isnan v) xs of
             [] \<Rightarrow> Inr NaN
           | v # vs \<Rightarrow> Inr (fold (\<lambda>x acc. if np_less acc x then x else acc) vs v))"

text \<open>\<open>np.rint\<close>: to the nearest integer, a tie to the even one.\<close>

definition rint :: "real \<Rightarrow> int" where
  "rint x =
     (let f = \<lfloor>x\<rfloor>; d = x - of_int f
      in if d < 1 / 2 then f else if 1 / 2 < d then f + 1 else if even f then f else f + 1)"

text \<open>
  \<open>skimage.util.img_as_ubyte\<close> on a float image: it raises \<open>ValueError\<close> when a value
  lies outside \<open>[-1, 1]\<close>, and otherwise multiplies by 255, rounds and clips to
  \<open>[0, 255]\<close>. The minimum of an empty image raises as well.
\<close>

definition img_as_ubyte :: "real raster \<Rightarrow> error + nat raster" where
  "img_as_ubyte img =
     (if concat img = [] then Inl ValueError
      else if list_ex (\<lambda>v. v < - 1 \<or> 1 < v) (concat img) then Inl ValueError
      else Inr (map (map (\<lambda>v. nat (max 0 (min 255 (rint (v * 255)))))) img))"

text \<open>
  \<open>norm_patch = (patch - np.nanmin(patch)) / (np.nanmax(patch) - np.nanmin(patch))\<close>
  and \<open>patch_uint8 = img_as_ubyte(np.nan_to_num(norm_patch))\<close>.
\<close>

definition norm_patch :: "npfloat raster \<Rightarrow> error + npfloat raster" where
  "norm_patch patch =
     (case np_nanmin (concat patch) of
        Inl e \<Rightarrow> Inl e
      | Inr mn \<Rightarrow>
          (case np_nanmax (concat patch) of
             Inl e \<Rightarrow> Inl e
           | Inr mx \<Rightarrow> Inr (map (map (\<lambda>p. np_div (np_sub p mn) (np_sub mx mn))) patch)))"

definition patch_uint8 :: "npfloat raster \<Rightarrow> error + nat raster" where
  "patch_uint8 patch =
     (case norm_patch patch of
        Inl e \<Rightarrow> Inl e
      | Inr np \<Rightarrow> img_as_ubyte (map (map (nan_to_num 0)) np))"

text \<open>
  \<open>graycomatrix(patch_uint8, distances=[1], angles=[0], levels=256, symmetric=True,
  normed=True)\<close> counts the pairs of horizontally adjacent pixels by their two gray
  levels, adds the transposed counts, and divides by the total (a total of 0 is replaced
  by 1). \<open>graycoprops(glcm, 'contrast')\<close> is the sum of \<open>P(i, j) * (i - j)^2\<close>.
\<close>

definition hpairs :: "nat raster \<Rightarrow> (nat \<times> nat) list" where
  "hpairs img = concat (map (\<lambda>row. zip row (tl row)) img)"

definition graycomatrix :: "nat raster \<Rightarrow> nat \<Rightarrow> nat \<Rightarrow> real" where
  "graycomatrix img i j =
     (let ps = hpairs img;
          count = (\<lambda>a b. real (length (filter (\<lambda>p. p = (a, b)) ps)));
          total = 2 * real (length ps)
      in (count i j + count j i) / (if total = 0 then 1 else total))"

definition graycoprops_contrast :: "(nat \<Rightarrow> nat \<Rightarrow> real) \<Rightarrow> real" where
  "graycoprops_contrast P = (\<Sum>i\<leftarrow>[0..<256]. \<Sum>j\<leftarrow>[0..<256]. P i j * (real i - real j)\<^sup>2)"

definition texture_step :: "npfloat raster \<Rightarrow> error + (nat raster \<times> real)" where
  "texture_step patch =
     (case patch_uint8 patch of
        Inl e \<Rightarrow> Inl e
      | Inr p \<Rightarrow> Inr (p, graycoprops_contrast (graycomatrix p)))"

definition radar_texture :: "npfloat raster \<Rightarrow> error + (nat raster \<times> real)" where
  "radar_texture lee_filtered = texture_step (slice2 1000 1200 lee_filtered)"


section \<open>Sentinel-2: vegetation index and cloud mask\<close>

text \<open>
  The red and near-infrared windows hold integer digital numbers, cast to float32 and
  divided by 10000. Step 3: \<open>ndvi = (nir - red) / (nir + red + 1e-10)\<close>.
\<close>

definition reflectance :: "int raster \<Rightarrow> real raster" where
  "reflectance dn = map (map (\<lambda>x. real_of_int x / 10000)) dn"

definition ndvi_px :: "real \<Rightarrow> real \<Rightarrow> npfloat" where
  "ndvi_px red nir = np_div (Fin (nir - red)) (Fin (nir + red + eps))"

definition ndvi :: "int raster \<Rightarrow> int raster \<Rightarrow> error + npfloat raster" where
  "ndvi red_dn nir_dn =
     (let red = reflectance red_dn; nir = reflectance nir_dn
      in np_binop (\<lambda>n r. ndvi_px r n) nir red)"

text \<open>
  Step 5: \<open>cloud_mask = np.isin(scl_resampled, [3, 8, 9, 10, 11])\<close> and
  \<open>ndvi_masked = np.where(cloud_mask, np.nan, ndvi)\<close>.
\<close>

definition excluded_classes :: "real list" where
  "excluded_classes = [3, 8, 9, 10, 11]"

definition cloud_mask :: "real raster \<Rightarrow> bool raster" where
  "cloud_mask scl_resampled = map (map (\<lambda>c. c \<in> set excluded_classes)) scl_resampled"

definition ndvi_masked :: "real raster \<Rightarrow> npfloat raster \<Rightarrow> error + npfloat raster" where
  "ndvi_masked scl_resampled nd = np_binop (\<lambda>m v. if m then NaN else v) (cloud_mask scl_resampled) nd"

text \<open>
  Steps 3 to 5 together. \<open>skimage.transform.resize\<close> is a parameter: called with
  \<open>order=0\<close> and the shape of the index raster, it returns a raster of that shape. The
  script keeps both the index raster and the masked one.
\<close>

definition optical_pipeline ::
  "(real raster \<Rightarrow> nat \<times> nat \<Rightarrow> real raster) \<Rightarrow> int raster \<Rightarrow> int raster \<Rightarrow> int raster
     \<Rightarrow> error + (npfloat raster \<times> npfloat raster)" where
  "optical_pipeline resize red_dn nir_dn scl =
     (case ndvi red_dn nir_dn of
        Inl e \<Rightarrow> Inl e
      | Inr nd \<Rightarrow>
          (let scl_resampled = resize (map (map real_of_int) scl) (shape nd)
           in case ndvi_masked scl_resampled nd of
                Inl e \<Rightarrow> Inl e
              | Inr masked \<Rightarrow> Inr (nd, masked)))"

text \<open>A nearest-neighbour resampling, for checking the model on concrete inputs.\<close>

definition nearest :: "real raster \<Rightarrow> nat \<times> nat \<Rightarrow> real raster" where
  "nearest img s =
     map (\<lambda>i. map (\<lambda>j. img ! (i * length img div fst s) ! (j * length (hd img) div snd s))
                   [0..<snd s])
         [0..<fst s]"

section \<open>Texture and vegetation index in float32\<close>






definition reflectance_fl :: "(real \<Rightarrow> real) \<Rightarrow> int raster \<Rightarrow> real raster" where
  "reflectance_fl rnd dn = map (map (\<lambda>x. rnd (rnd (real_of_int x) / 10000))) dn"

definition ndvi_px_fl :: "(real \<Rightarrow> real) \<Rightarrow> real \<Rightarrow> real \<Rightarrow> npfloat" where
  "ndvi_px_fl rnd red nir =
     r_div rnd (r_sub rnd (Fin nir) (Fin red))
               (r_add rnd (r_add rnd (Fin nir) (Fin red)) (Fin (rnd eps)))"

definition ndvi_fl :: "(real \<Rightarrow> real) \<Rightarrow> int raster \<Rightarrow> int raster \<Rightarrow> error + npfloat raster" where
  "ndvi_fl rnd red_dn nir_dn =
     (let red = reflectance_fl rnd red_dn; nir = reflectance_fl rnd nir_dn
      in np_binop (\<lambda>n r. ndvi_px_fl rnd r n) nir red)"

section \<open>Properties of the selection\<close>

lemma inner_loop_scan: "inner_loop rnd G s1 ys st = scan rnd G (map (Pair s1) ys) st"
  by (induction ys arbitrary: st) (auto split: sum.splits)

lemma scan_append:
  "scan rnd G (ps @ qs) st =
     (case scan rnd G ps st of Inl e \<Rightarrow> Inl e | Inr st' \<Rightarrow> scan rnd G qs st')"
  by (induction ps arbitrary: st) (auto split: sum.splits)

lemma outer_loop_scan: "outer_loop rnd G xs ys st = scan rnd G (combos xs ys) st"
  by (induction xs arbitrary: st)
     (auto simp: combos_def inner_loop_scan scan_append split: sum.splits)

lemma pair_step_zero_div:
  "divides_by_zero G (s1, s2) \<Longrightarrow> pair_step rnd G s1 s2 st = Inl ZeroDivisionError"
  by (simp add: pair_step_def divides_by_zero_def overlaps_def)

lemma pair_step_ok:
  assumes "\<not> divides_by_zero G (s1, s2)" "0 \<le> bo"
  shows "pair_step rnd G s1 s2 (bp, bo) =
           Inr (if overlap_score rnd G (s1, s2) > bo
                then (Some (s1, s2), overlap_score rnd G (s1, s2)) else (bp, bo))"
proof (cases "overlaps G (s1, s2)")
  case True
  with assms(1) have "area G (GeoFootprint s2) \<noteq> 0" by (simp add: divides_by_zero_def)
  with True show ?thesis
    by (simp add: pair_step_def overlap_score_def overlaps_def inter_area_def Let_def)
next
  case False
  then have "overlap_score rnd G (s1, s2) = 0" by (simp add: overlap_score_def)
  with False assms(2) show ?thesis by (simp add: pair_step_def overlaps_def)
qed

lemma scan_zero_div:
  assumes "\<exists>p \<in> set ps. divides_by_zero G p"
  shows "scan rnd G ps st = Inl ZeroDivisionError"
  using assms
proof (induction ps arbitrary: st)
  case Nil
  then show ?case by simp
next
  case (Cons p ps)
  show ?case
  proof (cases "divides_by_zero G p")
    case True
    then have "pair_step rnd G (fst p) (snd p) st = Inl ZeroDivisionError"
      using pair_step_zero_div[of G "fst p" "snd p"] by simp
    then show ?thesis by simp
  next
    case False
    with Cons.prems have rest: "\<exists>q \<in> set ps. divides_by_zero G q" by auto
    show ?thesis
    proof (cases "pair_step rnd G (fst p) (snd p) st")
      case (Inl e)
      then have "e = ZeroDivisionError"
        by (auto simp: pair_step_def Let_def split: if_splits)
      with Inl show ?thesis by simp
    next
      case (Inr st')
      then show ?thesis using Cons.IH[OF rest] by simp
    qed
  qed
qed

lemma scan_invariant:
  assumes "\<forall>p \<in> set ps. \<not> divides_by_zero G p" "0 \<le> bo"
  shows "\<exists>bp' bo'. scan rnd G ps (bp, bo) = Inr (bp', bo') \<and>
           (((\<forall>p \<in> set ps. overlap_score rnd G p \<le> bo) \<and> bp' = bp \<and> bo' = bo) \<or>
            (\<exists>i < length ps. bp' = Some (ps ! i) \<and> bo' = overlap_score rnd G (ps ! i) \<and> bo < bo' \<and>
               (\<forall>j < length ps. overlap_score rnd G (ps ! j) \<le> bo') \<and>
               (\<forall>j < i. overlap_score rnd G (ps ! j) < bo')))"
  using assms
proof (induction ps arbitrary: bp bo)
  case Nil
  then show ?case by simp
next
  case (Cons p ps)
  obtain s1 s2 where p: "p = (s1, s2)" by (cases p)
  have nz: "\<not> divides_by_zero G (s1, s2)" using Cons.prems(1) p by simp
  have rest: "\<forall>q \<in> set ps. \<not> divides_by_zero G q" using Cons.prems(1) by simp
  let ?s = "overlap_score rnd G p"
  show ?case
  proof (cases "?s > bo")
    case True
    have step: "pair_step rnd G (fst p) (snd p) (bp, bo) = Inr (Some p, ?s)"
      using pair_step_ok[OF nz Cons.prems(2), of rnd bp] True p by simp
    have nn: "0 \<le> ?s" using True Cons.prems(2) by simp
    from Cons.IH[OF rest nn, of "Some p"]
    obtain bp' bo' where r: "scan rnd G ps (Some p, ?s) = Inr (bp', bo')"
      and d: "((\<forall>q \<in> set ps. overlap_score rnd G q \<le> ?s) \<and> bp' = Some p \<and> bo' = ?s) \<or>
            (\<exists>i < length ps. bp' = Some (ps ! i) \<and> bo' = overlap_score rnd G (ps ! i) \<and> ?s < bo' \<and>
               (\<forall>j < length ps. overlap_score rnd G (ps ! j) \<le> bo') \<and>
               (\<forall>j < i. overlap_score rnd G (ps ! j) < bo'))" by blast
    have sc: "scan rnd G (p # ps) (bp, bo) = Inr (bp', bo')" using step r by simp
    from d show ?thesis
    proof
      assume A: "(\<forall>q \<in> set ps. overlap_score rnd G q \<le> ?s) \<and> bp' = Some p \<and> bo' = ?s"
      have "\<forall>j < length (p # ps). overlap_score rnd G ((p # ps) ! j) \<le> bo'"
        using A by (auto simp: nth_Cons split: nat.splits)
      with A True sc show ?thesis
        by (intro exI[of _ bp'] exI[of _ bo'] conjI disjI2 exI[of _ 0]) auto
    next
      assume "\<exists>i < length ps. bp' = Some (ps ! i) \<and> bo' = overlap_score rnd G (ps ! i) \<and> ?s < bo' \<and>
               (\<forall>j < length ps. overlap_score rnd G (ps ! j) \<le> bo') \<and>
               (\<forall>j < i. overlap_score rnd G (ps ! j) < bo')"
      then obtain i where i: "i < length ps" "bp' = Some (ps ! i)" "bo' = overlap_score rnd G (ps ! i)"
        "?s < bo'" "\<forall>j < length ps. overlap_score rnd G (ps ! j) \<le> bo'"
        "\<forall>j < i. overlap_score rnd G (ps ! j) < bo'" by blast
      have 1: "\<forall>j < length (p # ps). overlap_score rnd G ((p # ps) ! j) \<le> bo'"
        using i(4,5) by (auto simp: nth_Cons split: nat.splits)
      have 2: "\<forall>j < Suc i. overlap_score rnd G ((p # ps) ! j) < bo'"
        using i(4,6) by (auto simp: nth_Cons split: nat.splits)
      have 3: "bo < bo'" using True i(4) by simp
      show ?thesis using sc i(1,2,3) 1 2 3
        by (intro exI[of _ bp'] exI[of _ bo'] conjI disjI2 exI[of _ "Suc i"]) auto
    qed
  next
    case False
    have step: "pair_step rnd G (fst p) (snd p) (bp, bo) = Inr (bp, bo)"
      using pair_step_ok[OF nz Cons.prems(2), of rnd bp] False p by simp
    from Cons.IH[OF rest Cons.prems(2), of bp]
    obtain bp' bo' where r: "scan rnd G ps (bp, bo) = Inr (bp', bo')"
      and d: "((\<forall>q \<in> set ps. overlap_score rnd G q \<le> bo) \<and> bp' = bp \<and> bo' = bo) \<or>
            (\<exists>i < length ps. bp' = Some (ps ! i) \<and> bo' = overlap_score rnd G (ps ! i) \<and> bo < bo' \<and>
               (\<forall>j < length ps. overlap_score rnd G (ps ! j) \<le> bo') \<and>
               (\<forall>j < i. overlap_score rnd G (ps ! j) < bo'))" by blast
    have sc: "scan rnd G (p # ps) (bp, bo) = Inr (bp', bo')" using step r by simp
    from d show ?thesis
    proof
      assume A: "(\<forall>q \<in> set ps. overlap_score rnd G q \<le> bo) \<and> bp' = bp \<and> bo' = bo"
      with False sc show ?thesis by auto
    next
      assume "\<exists>i < length ps. bp' = Some (ps ! i) \<and> bo' = overlap_score rnd G (ps ! i) \<and> bo < bo' \<and>
               (\<forall>j < length ps. overlap_score rnd G (ps ! j) \<le> bo') \<and>
               (\<forall>j < i. overlap_score rnd G (ps ! j) < bo')"
      then obtain i where i: "i < length ps" "bp' = Some (ps ! i)" "bo' = overlap_score rnd G (ps ! i)"
        "bo < bo'" "\<forall>j < length ps. overlap_score rnd G (ps ! j) \<le> bo'"
        "\<forall>j < i. overlap_score rnd G (ps ! j) < bo'" by blast
      have 1: "\<forall>j < length (p # ps). overlap_score rnd G ((p # ps) ! j) \<le> bo'"
        using i(4,5) False by (auto simp: nth_Cons split: nat.splits)
      have 2: "\<forall>j < Suc i. overlap_score rnd G ((p # ps) ! j) < bo'"
        using i(4,6) False by (auto simp: nth_Cons split: nat.splits)
      show ?thesis using sc i(1,2,3,4) 1 2
        by (intro exI[of _ bp'] exI[of _ bo'] conjI disjI2 exI[of _ "Suc i"]) auto
    qed
  qed
qed

text \<open>
  When the rounding keeps the sign of a number and the optical footprint has a positive
  area, the score of an overlapping combination is positive exactly when the area of its
  intersection is.
\<close>

lemma score_pos_iff:
  assumes "\<forall>x. 0 < rnd x \<longleftrightarrow> 0 < x" "0 < area G (GeoFootprint (snd p))" "overlaps G p"
  shows "0 < overlap_score rnd G p \<longleftrightarrow> 0 < inter_area G p"
  using assms by (simp add: overlap_score_def zero_less_mult_iff zero_less_divide_iff)

lemma div_mod_row:
  fixes a b m :: nat
  assumes "b < m"
  shows "(a * m + b) div m = a" "(a * m + b) mod m = b"
  using assms by (simp_all add: add.commute)

lemma combos_nth:
  assumes "a < length xs" "b < length ys"
  shows "a * length ys + b < length (combos xs ys)" "combos xs ys ! (a * length ys + b) = (xs ! a, ys ! b)"
proof -
  have "a * length ys + b < Suc a * length ys" using assms(2) by simp
  also have "\<dots> \<le> length xs * length ys" using assms(1) by (simp add: Suc_leI mult_le_mono1 del: mult_Suc)
  finally show l: "a * length ys + b < length (combos xs ys)" by (simp add: combos_def)
  have d: "(a * length ys + b) div length ys = a" "(a * length ys + b) mod length ys = b"
    using assms(2) by (rule div_mod_row)+
  show "combos xs ys ! (a * length ys + b) = (xs ! a, ys ! b)"
    using l d by (simp add: combos_def product_nth)
qed

lemma combos_index:
  assumes "i < length (combos xs ys)"
  shows "i div length ys < length xs" "i mod length ys < length ys"
    "combos xs ys ! i = (xs ! (i div length ys), ys ! (i mod length ys))"
    "i = (i div length ys) * length ys + i mod length ys"
proof -
  have l: "i < length xs * length ys" using assms by (simp add: combos_def)
  then have pos: "0 < length ys" by (cases "length ys") auto
  show "i div length ys < length xs" using l pos by (simp add: less_mult_imp_div_less)
  show "i mod length ys < length ys" using pos by simp
  show "combos xs ys ! i = (xs ! (i div length ys), ys ! (i mod length ys))"
    using l by (simp add: combos_def product_nth)
  show "i = (i div length ys) * length ys + i mod length ys" by simp
qed

lemma combos_mem: "(s1, s2) \<in> set (combos xs ys) \<longleftrightarrow> s1 \<in> set xs \<and> s2 \<in> set ys"
  by (simp add: combos_def)

lemma combos_no_zero_div:
  assumes "\<forall>s1 \<in> set xs. \<forall>s2 \<in> set ys. \<not> divides_by_zero G (s1, s2)"
  shows "\<forall>p \<in> set (combos xs ys). \<not> divides_by_zero G p"
proof
  fix p assume m: "p \<in> set (combos xs ys)"
  obtain s1 s2 where p: "p = (s1, s2)" by (cases p)
  with m have "s1 \<in> set xs" "s2 \<in> set ys" using combos_mem by blast+
  then show "\<not> divides_by_zero G p" using assms p by blast
qed

lemma select_zero_div:
  assumes "s1 \<in> set xs" "s2 \<in> set ys" "divides_by_zero G (s1, s2)"
  shows "selectBestPair rnd G xs ys = Inl ZeroDivisionError"
proof -
  have "(s1, s2) \<in> set (combos xs ys)" using assms(1,2) by (simp add: combos_mem)
  then have "scan rnd G (combos xs ys) (None, 0) = Inl ZeroDivisionError"
    using assms(3) by (intro scan_zero_div) blast
  then show ?thesis by (simp add: selectBestPair_def outer_loop_scan)
qed

lemma select_cases:
  assumes "\<forall>s1 \<in> set xs. \<forall>s2 \<in> set ys. \<not> divides_by_zero G (s1, s2)"
  shows "((\<forall>p \<in> set (combos xs ys). overlap_score rnd G p \<le> 0) \<and>
            selectBestPair rnd G xs ys = Inl NoOverlapFound) \<or>
         (\<exists>i < length (combos xs ys).
             selectBestPair rnd G xs ys = Inr (combos xs ys ! i, overlap_score rnd G (combos xs ys ! i)) \<and>
             0 < overlap_score rnd G (combos xs ys ! i) \<and>
             (\<forall>j < length (combos xs ys).
                overlap_score rnd G (combos xs ys ! j) \<le> overlap_score rnd G (combos xs ys ! i)) \<and>
             (\<forall>j < i. overlap_score rnd G (combos xs ys ! j) < overlap_score rnd G (combos xs ys ! i)))"
proof -
  from scan_invariant[OF combos_no_zero_div[OF assms], of 0 rnd None]
  obtain bp' bo' where r: "scan rnd G (combos xs ys) (None, 0) = Inr (bp', bo')"
    and d: "((\<forall>p \<in> set (combos xs ys). overlap_score rnd G p \<le> 0) \<and> bp' = None \<and> bo' = 0) \<or>
            (\<exists>i < length (combos xs ys). bp' = Some (combos xs ys ! i) \<and>
               bo' = overlap_score rnd G (combos xs ys ! i) \<and> 0 < bo' \<and>
               (\<forall>j < length (combos xs ys). overlap_score rnd G (combos xs ys ! j) \<le> bo') \<and>
               (\<forall>j < i. overlap_score rnd G (combos xs ys ! j) < bo'))" by auto
  from d show ?thesis
  proof
    assume "(\<forall>p \<in> set (combos xs ys). overlap_score rnd G p \<le> 0) \<and> bp' = None \<and> bo' = 0"
    then show ?thesis using r by (simp add: selectBestPair_def outer_loop_scan)
  next
    assume "\<exists>i < length (combos xs ys). bp' = Some (combos xs ys ! i) \<and>
               bo' = overlap_score rnd G (combos xs ys ! i) \<and> 0 < bo' \<and>
               (\<forall>j < length (combos xs ys). overlap_score rnd G (combos xs ys ! j) \<le> bo') \<and>
               (\<forall>j < i. overlap_score rnd G (combos xs ys ! j) < bo')"
    then obtain i where i: "i < length (combos xs ys)" "bp' = Some (combos xs ys ! i)"
      "bo' = overlap_score rnd G (combos xs ys ! i)" "0 < bo'"
      "\<forall>j < length (combos xs ys). overlap_score rnd G (combos xs ys ! j) \<le> bo'"
      "\<forall>j < i. overlap_score rnd G (combos xs ys ! j) < bo'" by blast
    have "selectBestPair rnd G xs ys = Inr (combos xs ys ! i, overlap_score rnd G (combos xs ys ! i))"
      using r i(2,3) by (simp add: selectBestPair_def outer_loop_scan)
    with i show ?thesis by (intro disjI2 exI[of _ i]) simp
  qed
qed

text \<open>
  Claim C1, as the code has it. Suppose that no overlapping combination has an optical
  footprint of area zero (the loop would divide by zero there) and that some
  combination has a positive overlap score as the loop computes it. Then
  \<open>selectBestPair\<close> returns a combination \<open>(data_s1 ! a, data_s2 ! b)\<close> together with its
  computed score; that score is at least the computed score of every combination, and
  strictly greater than that of every combination visited before it (outer loop over
  the radar candidates, inner loop over the optical ones), so on a tie of the computed
  scores the combination met first is kept. This holds whatever the rounding is.
\<close>

theorem selectBestPair_maximum:
  assumes "\<forall>s1 \<in> set data_s1. \<forall>s2 \<in> set data_s2. \<not> divides_by_zero G (s1, s2)"
    and "\<exists>a < length data_s1. \<exists>b < length data_s2. 0 < overlap_score rnd G (data_s1 ! a, data_s2 ! b)"
  shows "\<exists>a < length data_s1. \<exists>b < length data_s2.
           selectBestPair rnd G data_s1 data_s2 =
             Inr ((data_s1 ! a, data_s2 ! b), overlap_score rnd G (data_s1 ! a, data_s2 ! b)) \<and>
           (\<forall>a' < length data_s1. \<forall>b' < length data_s2.
              overlap_score rnd G (data_s1 ! a', data_s2 ! b') \<le> overlap_score rnd G (data_s1 ! a, data_s2 ! b)) \<and>
           (\<forall>a' < length data_s1. \<forall>b' < length data_s2.
              a' < a \<or> (a' = a \<and> b' < b) \<longrightarrow>
              overlap_score rnd G (data_s1 ! a', data_s2 ! b') < overlap_score rnd G (data_s1 ! a, data_s2 ! b))"
proof -
  let ?cs = "combos data_s1 data_s2"
  let ?m = "length data_s2"
  from assms(2) obtain a0 b0 where ab0: "a0 < length data_s1" "b0 < ?m"
    and pos0: "0 < overlap_score rnd G (data_s1 ! a0, data_s2 ! b0)" by blast
  have mem0: "(data_s1 ! a0, data_s2 ! b0) \<in> set ?cs"
    using ab0 by (simp add: combos_def)
  from select_cases[OF assms(1), of rnd] pos0 mem0
  obtain i where i: "i < length ?cs"
      "selectBestPair rnd G data_s1 data_s2 = Inr (?cs ! i, overlap_score rnd G (?cs ! i))"
      "\<forall>j < length ?cs. overlap_score rnd G (?cs ! j) \<le> overlap_score rnd G (?cs ! i)"
      "\<forall>j < i. overlap_score rnd G (?cs ! j) < overlap_score rnd G (?cs ! i)"
    by (auto simp: not_le[symmetric] simp del: not_le)
  let ?a = "i div ?m" and ?b = "i mod ?m"
  note ci = combos_index[OF i(1)]
  have best: "?cs ! i = (data_s1 ! ?a, data_s2 ! ?b)" by (rule ci(3))
  have 1: "selectBestPair rnd G data_s1 data_s2 =
             Inr ((data_s1 ! ?a, data_s2 ! ?b), overlap_score rnd G (data_s1 ! ?a, data_s2 ! ?b))"
    using i(2) best by simp
  have 2: "\<forall>a' < length data_s1. \<forall>b' < ?m.
              overlap_score rnd G (data_s1 ! a', data_s2 ! b') \<le> overlap_score rnd G (data_s1 ! ?a, data_s2 ! ?b)"
  proof (intro allI impI)
    fix a' b' assume h: "a' < length data_s1" "b' < ?m"
    from combos_nth[OF h] i(3) best
    show "overlap_score rnd G (data_s1 ! a', data_s2 ! b') \<le> overlap_score rnd G (data_s1 ! ?a, data_s2 ! ?b)"
      by metis
  qed
  have 3: "\<forall>a' < length data_s1. \<forall>b' < ?m. a' < ?a \<or> (a' = ?a \<and> b' < ?b) \<longrightarrow>
              overlap_score rnd G (data_s1 ! a', data_s2 ! b') < overlap_score rnd G (data_s1 ! ?a, data_s2 ! ?b)"
  proof (intro allI impI)
    fix a' b' assume h: "a' < length data_s1" "b' < ?m" and lt: "a' < ?a \<or> (a' = ?a \<and> b' < ?b)"
    have "a' * ?m + b' < i"
    proof (cases "a' < ?a")
      case True
      then have "Suc a' \<le> ?a" by simp
      then have "Suc a' * ?m \<le> ?a * ?m" by (rule mult_le_mono1)
      moreover have "a' * ?m + b' < Suc a' * ?m" using h(2) by simp
      moreover have "?a * ?m \<le> i" by simp
      ultimately show ?thesis by linarith
    next
      case False
      with lt have e: "a' = ?a" "b' < ?b" by auto
      then show ?thesis
        by (metis add_less_cancel_left div_mult_mod_eq mult.commute)
    qed
    with i(4) have "overlap_score rnd G (?cs ! (a' * ?m + b')) < overlap_score rnd G (?cs ! i)" by blast
    then show "overlap_score rnd G (data_s1 ! a', data_s2 ! b') < overlap_score rnd G (data_s1 ! ?a, data_s2 ! ?b)"
      using combos_nth(2)[OF h] best by simp
  qed
  show ?thesis using ci(1,2) 1 2 3 by blast
qed

lemma sample_scores:
  "overlap_score one_decimal boxes (radar_a, optical_a) = 50"
  "overlap_score one_decimal boxes (radar_b, optical_b) = 50"
  "overlap_score exact boxes (radar_a, optical_a) = 51"
  "overlap_score exact boxes (radar_b, optical_b) = 55"
  by (simp_all add: overlap_score_def overlaps_def inter_area_def one_decimal_def exact_def
      boxes_def box_inter_def box_empty_def box_area_def
      radar_a_def radar_b_def optical_a_def optical_b_def mk_product_def)

lemma sample_run:
  "selectBestPair one_decimal boxes [radar_a, radar_b] [optical_a, optical_b] =
     Inr ((radar_a, optical_a), 50)"
  by (simp add: selectBestPair_def pair_step_def one_decimal_def
      boxes_def box_inter_def box_empty_def box_area_def
      radar_a_def radar_b_def optical_a_def optical_b_def mk_product_def)

lemma sample_no_zero_div:
  "\<forall>s1 \<in> set [radar_a, radar_b]. \<forall>s2 \<in> set [optical_a, optical_b]. \<not> divides_by_zero boxes (s1, s2)"
  "\<forall>s1 \<in> set [radar_a, radar_b]. \<forall>s2 \<in> set [optical_far]. \<not> divides_by_zero boxes (s1, s2)"
  by (simp_all add: divides_by_zero_def boxes_def box_area_def
      optical_a_def optical_b_def optical_far_def mk_product_def)

text \<open>
  On the sample below the exact scores are 51 and 55, the scores computed with the
  coarse rounding are 50 and 50, and the first combination is returned.
\<close>

theorem selectBestPair_maximum_witness:
  "\<not> divides_by_zero boxes (radar_a, optical_a) \<and>
   0 < overlap_score one_decimal boxes ([radar_a, radar_b] ! 0, [optical_a, optical_b] ! 0) \<and>
   selectBestPair one_decimal boxes [radar_a, radar_b] [optical_a, optical_b] =
     Inr ((radar_a, optical_a), 50) \<and>
   overlap_score one_decimal boxes (radar_b, optical_b) = 50 \<and>
   overlap_score exact boxes (radar_a, optical_a) = 51 \<and>
   overlap_score exact boxes (radar_b, optical_b) = 55 \<and>
   (\<exists>a < length [radar_a, radar_b]. \<exists>b < length [optical_a, optical_b].
      selectBestPair one_decimal boxes [radar_a, radar_b] [optical_a, optical_b] =
        Inr (([radar_a, radar_b] ! a, [optical_a, optical_b] ! b),
             overlap_score one_decimal boxes ([radar_a, radar_b] ! a, [optical_a, optical_b] ! b)) \<and>
      (\<forall>a' < length [radar_a, radar_b]. \<forall>b' < length [optical_a, optical_b].
         overlap_score one_decimal boxes ([radar_a, radar_b] ! a', [optical_a, optical_b] ! b')
           \<le> overlap_score one_decimal boxes ([radar_a, radar_b] ! a, [optical_a, optical_b] ! b)) \<and>
      (\<forall>a' < length [radar_a, radar_b]. \<forall>b' < length [optical_a, optical_b].
         a' < a \<or> (a' = a \<and> b' < b) \<longrightarrow>
         overlap_score one_decimal boxes ([radar_a, radar_b] ! a', [optical_a, optical_b] ! b')
           < overlap_score one_decimal boxes ([radar_a, radar_b] ! a, [optical_a, optical_b] ! b)))"
proof -
  have h: "0 < overlap_score one_decimal boxes ([radar_a, radar_b] ! 0, [optical_a, optical_b] ! 0)"
    by (simp add: sample_scores)
  then have e: "\<exists>a < length [radar_a, radar_b]. \<exists>b < length [optical_a, optical_b].
      0 < overlap_score one_decimal boxes ([radar_a, radar_b] ! a, [optical_a, optical_b] ! b)"
    by (intro exI[of _ 0] conjI) simp_all
  have z: "\<not> divides_by_zero boxes (radar_a, optical_a)" using sample_no_zero_div(1) by simp
  from selectBestPair_maximum[OF sample_no_zero_div(1) e]
  show ?thesis using h z sample_run sample_scores by blast
qed

text \<open>
  A flat optical footprint (area 0) that touches the radar footprint makes the loop
  divide by zero, although another combination has an intersection of positive area.
\<close>

theorem selectBestPair_maximum_counterexample:
  "0 < inter_area boxes (radar_a, optical_a) \<and>
   selectBestPair exact boxes [radar_a] [optical_flat, optical_a] = Inl ZeroDivisionError"
  by (simp add: inter_area_def selectBestPair_def pair_step_def exact_def
      boxes_def box_inter_def box_empty_def box_area_def
      radar_a_def optical_a_def optical_flat_def mk_product_def)

text \<open>
  Claim C2, as the code has it. \<open>selectBestPair\<close> fails with \<open>ZeroDivisionError\<close> exactly
  when some overlapping combination has an optical footprint of area zero. Otherwise it
  fails with \<open>NoOverlapFound\<close> exactly when no combination has a positive overlap score
  as the loop computes it; this is so in particular when either list is empty. A
  combination that is returned overlaps and has a positive score: combinations whose
  footprints are disjoint are never selected.
\<close>

theorem selectBestPair_NoOverlapFound:
  "(selectBestPair rnd G data_s1 data_s2 = Inl ZeroDivisionError \<longleftrightarrow>
      (\<exists>s1 \<in> set data_s1. \<exists>s2 \<in> set data_s2. divides_by_zero G (s1, s2))) \<and>
   (selectBestPair rnd G data_s1 data_s2 = Inl NoOverlapFound \<longleftrightarrow>
      \<not> (\<exists>s1 \<in> set data_s1. \<exists>s2 \<in> set data_s2. divides_by_zero G (s1, s2)) \<and>
      \<not> (\<exists>s1 \<in> set data_s1. \<exists>s2 \<in> set data_s2. 0 < overlap_score rnd G (s1, s2))) \<and>
   (data_s1 = [] \<or> data_s2 = [] \<longrightarrow> selectBestPair rnd G data_s1 data_s2 = Inl NoOverlapFound) \<and>
   (\<forall>s1 s2 ov. selectBestPair rnd G data_s1 data_s2 = Inr ((s1, s2), ov) \<longrightarrow>
      s1 \<in> set data_s1 \<and> s2 \<in> set data_s2 \<and> overlaps G (s1, s2) \<and>
      ov = overlap_score rnd G (s1, s2) \<and> 0 < ov)"
proof (cases "\<exists>s1 \<in> set data_s1. \<exists>s2 \<in> set data_s2. divides_by_zero G (s1, s2)")
  case True
  then have z: "selectBestPair rnd G data_s1 data_s2 = Inl ZeroDivisionError"
    using select_zero_div by blast
  have ne: "\<not> (data_s1 = [] \<or> data_s2 = [])" using True by auto
  show ?thesis using True z ne by simp
next
  case False
  let ?cs = "combos data_s1 data_s2"
  have nz: "\<forall>s1 \<in> set data_s1. \<forall>s2 \<in> set data_s2. \<not> divides_by_zero G (s1, s2)"
    using False by blast
  have none_iff: "(\<forall>p \<in> set ?cs. overlap_score rnd G p \<le> 0) \<longleftrightarrow>
      \<not> (\<exists>s1 \<in> set data_s1. \<exists>s2 \<in> set data_s2. 0 < overlap_score rnd G (s1, s2))"
  proof
    assume a: "\<forall>p \<in> set ?cs. overlap_score rnd G p \<le> 0"
    show "\<not> (\<exists>s1 \<in> set data_s1. \<exists>s2 \<in> set data_s2. 0 < overlap_score rnd G (s1, s2))"
    proof
      assume "\<exists>s1 \<in> set data_s1. \<exists>s2 \<in> set data_s2. 0 < overlap_score rnd G (s1, s2)"
      then obtain s1 s2 where m: "(s1, s2) \<in> set ?cs" and "0 < overlap_score rnd G (s1, s2)"
        using combos_mem by blast
      with a show False by fastforce
    qed
  next
    assume b: "\<not> (\<exists>s1 \<in> set data_s1. \<exists>s2 \<in> set data_s2. 0 < overlap_score rnd G (s1, s2))"
    show "\<forall>p \<in> set ?cs. overlap_score rnd G p \<le> 0"
    proof
      fix p assume m: "p \<in> set ?cs"
      obtain s1 s2 where p: "p = (s1, s2)" by (cases p)
      with m have "s1 \<in> set data_s1" "s2 \<in> set data_s2" using combos_mem by blast+
      then have "\<not> 0 < overlap_score rnd G p" using b p by blast
      then show "overlap_score rnd G p \<le> 0" by simp
    qed
  qed
  from select_cases[OF nz, of rnd]
  consider (none) "\<forall>p \<in> set ?cs. overlap_score rnd G p \<le> 0"
      "selectBestPair rnd G data_s1 data_s2 = Inl NoOverlapFound"
    | (some) i where "i < length ?cs"
        "selectBestPair rnd G data_s1 data_s2 = Inr (?cs ! i, overlap_score rnd G (?cs ! i))"
        "0 < overlap_score rnd G (?cs ! i)"
    by blast
  then have main: "(selectBestPair rnd G data_s1 data_s2 \<noteq> Inl ZeroDivisionError) \<and>
         (selectBestPair rnd G data_s1 data_s2 = Inl NoOverlapFound \<longleftrightarrow>
            \<not> (\<exists>s1 \<in> set data_s1. \<exists>s2 \<in> set data_s2. 0 < overlap_score rnd G (s1, s2))) \<and>
         (\<forall>s1 s2 ov. selectBestPair rnd G data_s1 data_s2 = Inr ((s1, s2), ov) \<longrightarrow>
            s1 \<in> set data_s1 \<and> s2 \<in> set data_s2 \<and> overlaps G (s1, s2) \<and>
            ov = overlap_score rnd G (s1, s2) \<and> 0 < ov)"
  proof cases
    case none
    then show ?thesis using none_iff by simp
  next
    case some
    have m: "?cs ! i \<in> set ?cs" using some(1) by simp
    have ov: "overlaps G (?cs ! i)"
      using some(3) by (auto simp: overlap_score_def split: if_splits)
    have "\<not> (\<forall>p \<in> set ?cs. overlap_score rnd G p \<le> 0)" using m some(3) by fastforce
    then have 1: "(selectBestPair rnd G data_s1 data_s2 = Inl NoOverlapFound \<longleftrightarrow>
            \<not> (\<exists>s1 \<in> set data_s1. \<exists>s2 \<in> set data_s2. 0 < overlap_score rnd G (s1, s2)))"
      using none_iff some(2) by simp
    have 2: "\<forall>s1 s2 ov. selectBestPair rnd G data_s1 data_s2 = Inr ((s1, s2), ov) \<longrightarrow>
            s1 \<in> set data_s1 \<and> s2 \<in> set data_s2 \<and> overlaps G (s1, s2) \<and>
            ov = overlap_score rnd G (s1, s2) \<and> 0 < ov"
    proof (intro allI impI)
      fix s1 s2 ov assume "selectBestPair rnd G data_s1 data_s2 = Inr ((s1, s2), ov)"
      with some(2) have "Inr (?cs ! i, overlap_score rnd G (?cs ! i)) =
          (Inr ((s1, s2), ov) :: error + (('a product \<times> 'a product) \<times> real))" by simp
      then have e: "?cs ! i = (s1, s2)" "ov = overlap_score rnd G (?cs ! i)" by auto
      then show "s1 \<in> set data_s1 \<and> s2 \<in> set data_s2 \<and> overlaps G (s1, s2) \<and>
            ov = overlap_score rnd G (s1, s2) \<and> 0 < ov"
        using m ov some(3) combos_mem[of s1 s2 data_s1 data_s2] by simp
    qed
    from 1 2 some(2) show ?thesis by simp
  qed
  have "data_s1 = [] \<or> data_s2 = [] \<longrightarrow> selectBestPair rnd G data_s1 data_s2 = Inl NoOverlapFound"
    using main by auto
  with main False show ?thesis by blast
qed

theorem selectBestPair_NoOverlapFound_witness:
  "selectBestPair exact boxes [radar_a, radar_b] [optical_far] = Inl NoOverlapFound \<and>
   selectBestPair exact boxes [] [optical_far] = Inl NoOverlapFound \<and>
   selectBestPair exact boxes [radar_a] [optical_far, optical_a] = Inr ((radar_a, optical_a), 51) \<and>
   overlaps boxes (radar_a, optical_a) \<and>
   selectBestPair exact boxes [radar_a] [optical_flat] = Inl ZeroDivisionError"
proof -
  have d: "\<not> (\<exists>s1 \<in> set [radar_a, radar_b]. \<exists>s2 \<in> set [optical_far]. 0 < overlap_score exact boxes (s1, s2))"
    by (simp add: overlap_score_def overlaps_def boxes_def box_inter_def box_empty_def
        radar_a_def radar_b_def optical_far_def mk_product_def)
  have n: "\<not> (\<exists>s1 \<in> set [radar_a, radar_b]. \<exists>s2 \<in> set [optical_far]. divides_by_zero boxes (s1, s2))"
    using sample_no_zero_div(2) by blast
  have r: "selectBestPair exact boxes [radar_a] [optical_far, optical_a] = Inr ((radar_a, optical_a), 51)"
    by (simp add: selectBestPair_def pair_step_def exact_def boxes_def box_inter_def box_empty_def
        box_area_def radar_a_def optical_a_def optical_far_def mk_product_def)
  have z: "\<exists>s1 \<in> set [radar_a]. \<exists>s2 \<in> set [optical_flat]. divides_by_zero boxes (s1, s2)"
    by (simp add: divides_by_zero_def overlaps_def boxes_def box_inter_def box_empty_def box_area_def
        radar_a_def optical_flat_def mk_product_def)
  show ?thesis
    using selectBestPair_NoOverlapFound[of exact boxes "[radar_a, radar_b]" "[optical_far]"]
      selectBestPair_NoOverlapFound[of exact boxes "[]" "[optical_far]"]
      selectBestPair_NoOverlapFound[of exact boxes "[radar_a]" "[optical_far, optical_a]"]
      selectBestPair_NoOverlapFound[of exact boxes "[radar_a]" "[optical_flat]"]
      d n r z
    by simp
qed

text \<open>
  With a flat optical footprint that touches the radar footprint, no combination has an
  intersection of positive area, and the failure is a division by zero.
\<close>

theorem selectBestPair_NoOverlapFound_counterexample:
  "\<not> 0 < inter_area boxes (radar_a, optical_flat) \<and>
   selectBestPair exact boxes [radar_a] [optical_flat] = Inl ZeroDivisionError \<and>
   selectBestPair exact boxes [radar_a] [optical_flat] \<noteq> Inl NoOverlapFound"
  by (simp add: inter_area_def selectBestPair_def pair_step_def exact_def
      boxes_def box_inter_def box_empty_def box_area_def
      radar_a_def optical_flat_def mk_product_def)

section \<open>Properties of the radar calibration and masking\<close>

lemma mask_px_range: "mask_px v = NaN \<or> (\<exists>r. mask_px v = Fin r \<and> - 40 \<le> r \<and> r \<le> 5)"
  by (cases v) (auto simp: mask_px_def Let_def)

lemma mask_px_Fin: "mask_px (Fin r) = (if - 40 \<le> r \<and> r \<le> 5 then Fin r else NaN)"
  by (auto simp: mask_px_def Let_def)

lemma mask_px_idem: "\<not> isnan (mask_px v) \<Longrightarrow> mask_px v = v"
  by (cases v) (auto simp: mask_px_def Let_def isnan_def split: if_splits)

text \<open>
  Claim C3. For every input window, every pixel of the masked decibel array is either
  no-data (\<open>NaN\<close>) or a number in the closed range from \<open>-40\<close> to \<open>5\<close>: no decibel
  value outside that range survives the two masking assignments.
\<close>

theorem masked_db_in_range:
  "\<forall>row \<in> set (sigma0_db_window vh_window). \<forall>v \<in> set row.
     isnan v \<or> (\<exists>r. v = Fin r \<and> - 40 \<le> r \<and> r \<le> 5)"
proof (intro ballI)
  fix row v assume "row \<in> set (sigma0_db_window vh_window)" "v \<in> set row"
  then obtain u where "v = mask_px u"
    by (auto simp: sigma0_db_window_def mask_db_def)
  then show "isnan v \<or> (\<exists>r. v = Fin r \<and> - 40 \<le> r \<and> r \<le> 5)"
    using mask_px_range[of u] by (auto simp: isnan_def)
qed

lemma log10_eps: "log 10 eps = - 10"
proof -
  have "log 10 ((10::real) ^ 10) = real 10" by (rule log_pow_cancel) simp_all
  moreover have "log 10 (1 / 10 ^ 10) = - log 10 ((10::real) ^ 10)"
    by (subst log_divide) simp_all
  ultimately show ?thesis by (simp add: eps_def)
qed

lemma db_of_zero: "sigma0_db_px 0 = Fin (- 100)"
  by (simp add: sigma0_db_px_def np_log10_def log10_eps) (simp add: eps_def)

lemma db_of_10000: "sigma0_db_px 10000 = Fin (10 * log 10 (1 + eps))"
  by (simp add: sigma0_db_px_def np_log10_def eps_def)

lemma db_10000_range: "0 \<le> 10 * log 10 (1 + eps)" "10 * log 10 (1 + eps) \<le> 5"
proof -
  have e: "0 < eps" "eps < 1" by (simp_all add: eps_def)
  show "0 \<le> 10 * log 10 (1 + eps)" using e by simp
  have "1 + eps \<le> 2" using e by simp
  also have "2 \<le> sqrt 10" by (simp add: real_le_rsqrt)
  also have "sqrt 10 = 10 powr (1 / 2)" by (simp add: powr_half_sqrt)
  finally have "1 + eps \<le> 10 powr (1 / 2)" .
  moreover have "0 < 1 + eps" using e by simp
  ultimately have "log 10 (1 + eps) \<le> 1 / 2" by (subst log_le_iff) simp_all
  then show "10 * log 10 (1 + eps) \<le> 5" by simp
qed

lemma db_of_65535: "\<exists>r. sigma0_db_px 65535 = Fin r \<and> 5 < r"
proof -
  let ?x = "65535 / 10000 + eps"
  have e: "0 < eps" by (simp add: eps_def)
  have "sqrt 10 < 4" by (simp add: real_less_lsqrt)
  also have "4 < ?x" using e by simp
  finally have "sqrt 10 < ?x" .
  then have "10 powr (1 / 2) < ?x" by (simp add: powr_half_sqrt)
  moreover have "0 < ?x" using e by simp
  ultimately have "1 / 2 < log 10 ?x" by (subst less_log_iff) simp_all
  then have "5 < 10 * log 10 ?x" by linarith
  moreover have "sigma0_db_px 65535 = Fin (10 * log 10 ?x)"
    using e by (simp add: sigma0_db_px_def np_log10_def)
  ultimately show ?thesis by blast
qed

theorem masked_db_in_range_witness:
  "isnan (mask_px (sigma0_db_px 0)) \<and>
   mask_px (sigma0_db_px 10000) = Fin (10 * log 10 (1 + eps)) \<and>
   (isnan (mask_px (sigma0_db_px 10000)) \<or>
      (\<exists>r. mask_px (sigma0_db_px 10000) = Fin r \<and> - 40 \<le> r \<and> r \<le> 5))"
proof -
  have w: "sigma0_db_window [[0, 10000]] = [[mask_px (sigma0_db_px 0), mask_px (sigma0_db_px 10000)]]"
    by (simp add: sigma0_db_window_def mask_db_def sigma0_db_def)
  have 1: "isnan (mask_px (sigma0_db_px 0))"
    by (simp add: db_of_zero mask_px_Fin isnan_def)
  have 2: "mask_px (sigma0_db_px 10000) = Fin (10 * log 10 (1 + eps))"
    using db_10000_range by (simp add: db_of_10000 mask_px_Fin)
  from masked_db_in_range[of "[[0, 10000]]"] w 1 2 show ?thesis by simp
qed

section \<open>Properties of rounding\<close>

lemma round_fin_exact: "round_fin exact v = v"
  by (cases v) (simp_all add: round_fin_def exact_def)

lemma rounding_exact: "rounding exact"
  by (simp add: rounding_def exact_def)

lemma rounding_mono: "rounding rnd \<Longrightarrow> x \<le> y \<Longrightarrow> rnd x \<le> rnd y"
  by (simp add: rounding_def)

lemma rounding_0: "rounding rnd \<Longrightarrow> rnd 0 = 0"
proof -
  assume "rounding rnd"
  then have "rnd (- 0) = - rnd 0" unfolding rounding_def by blast
  then show ?thesis by simp
qed

lemma rounding_1: "rounding rnd \<Longrightarrow> rnd 1 = 1" and rounding_255: "rounding rnd \<Longrightarrow> rnd 255 = 255"
  by (simp_all add: rounding_def)

lemma rounding_idem: "rounding rnd \<Longrightarrow> rnd (rnd x) = rnd x"
  by (simp add: rounding_def)

lemma rounding_neg: "rounding rnd \<Longrightarrow> rnd (- x) = - rnd x"
  by (simp add: rounding_def)

lemma rounding_unit: 
  assumes "rounding rnd" "- 1 \<le> x" "x \<le> 1"
  shows "- 1 \<le> rnd x" "rnd x \<le> 1"
proof -
  have "rnd (- 1) = - 1" using rounding_neg[OF assms(1), of 1] rounding_1[OF assms(1)] by simp
  then show "- 1 \<le> rnd x" using rounding_mono[OF assms(1) assms(2)] by simp
  show "rnd x \<le> 1" using rounding_mono[OF assms(1) assms(3)] rounding_1[OF assms(1)] by simp
qed

section \<open>Properties of the Lee filter\<close>

lemma reflect_less: "0 < n \<Longrightarrow> reflect n j < n"
  by (auto simp: reflect_def Let_def)

lemma window_idx_less: "0 < n \<Longrightarrow> window_idx sz n i k < n"
  by (simp add: window_idx_def reflect_less)

lemma rect_nth: "rect h w img \<Longrightarrow> i < h \<Longrightarrow> length (img ! i) = w"
  by (auto simp: rect_def)

lemma rect_length: "rect h w img \<Longrightarrow> length img = h"
  by (simp add: rect_def)

lemma rectI: "length img = h \<Longrightarrow> (\<And>i. i < h \<Longrightarrow> length (img ! i) = w) \<Longrightarrow> rect h w img"
  by (auto simp: rect_def in_set_conv_nth)

lemma rect_map: "rect h w img \<Longrightarrow> rect h w (map (map f) img)"
  by (auto simp: rect_def)

lemma filter_axis0_rect: "rect h w img \<Longrightarrow> rect h w (filter_axis0 sz img)"
  by (rule rectI) (simp_all add: filter_axis0_def rect_length rect_nth)

lemma filter_axis1_rect: "rect h w img \<Longrightarrow> rect h w (filter_axis1 sz img)"
  by (rule rectI) (simp_all add: filter_axis1_def rect_length rect_nth)

lemma uniform_filter_rect: "rect h w img \<Longrightarrow> rect h w (uniform_filter sz img)"
  by (simp add: uniform_filter_def filter_axis0_rect filter_axis1_rect)

lemma filter_axis0_nth:
  "rect h w img \<Longrightarrow> i < h \<Longrightarrow> j < w \<Longrightarrow>
   filter_axis0 sz img ! i ! j = (\<Sum>k\<leftarrow>[0..<sz]. img ! window_idx sz h i k ! j) / real sz"
  by (simp add: filter_axis0_def rect_length rect_nth)

lemma filter_axis1_nth:
  "rect h w img \<Longrightarrow> i < h \<Longrightarrow> j < w \<Longrightarrow>
   filter_axis1 sz img ! i ! j = (\<Sum>k\<leftarrow>[0..<sz]. img ! i ! window_idx sz w j k) / real sz"
  by (simp add: filter_axis1_def rect_length rect_nth)

lemma sum_list_const: "(\<Sum>k\<leftarrow>ks. (c::real)) = real (length ks) * c"
  by (induction ks) (simp_all add: algebra_simps)

lemma uniform_filter_const:
  assumes r: "rect h w img" and c: "\<And>i j. i < h \<Longrightarrow> j < w \<Longrightarrow> img ! i ! j = c"
    and "0 < sz" "i < h" "j < w"
  shows "uniform_filter sz img ! i ! j = c"
proof -
  have a0: "filter_axis0 sz img ! i' ! j' = c" if "i' < h" "j' < w" for i' j'
  proof -
    have "0 < h" using that by simp
    then have "img ! window_idx sz h i' k ! j' = c" for k
      using c[OF window_idx_less that(2)] by simp
    then show ?thesis using that assms(3)
      by (simp add: filter_axis0_nth[OF r] sum_list_const)
  qed
  have "0 < w" using assms(5) by simp
  then have "filter_axis0 sz img ! i ! window_idx sz w j k = c" for k
    using a0[OF assms(4) window_idx_less] by simp
  then show ?thesis using assms(3,4,5)
    by (simp add: uniform_filter_def filter_axis1_nth[OF filter_axis0_rect[OF r]] sum_list_const)
qed


lemma np_var_const:
  assumes "xs \<noteq> []" "\<And>x. x \<in> set xs \<Longrightarrow> x = c"
  shows "np_var xs = Fin 0"
proof -
  have xs: "xs = replicate (length xs) c" using assms(2) by (simp add: replicate_length_same)
  have n: "real (length xs) \<noteq> 0" using assms(1) by simp
  have "sum_list xs = real (length xs) * c" by (subst xs) (simp add: sum_list_replicate)
  then have m: "sum_list xs / real (length xs) = c" using n by simp
  have "(\<Sum>x\<leftarrow>xs. (x - c)\<^sup>2) = 0" using assms(2) by (induction xs) auto
  then show ?thesis using assms(1) by (simp add: np_var_def Let_def m)
qed

lemma nth_in_concat:
  assumes "rect h w img" "i < h" "j < w"
  shows "img ! i ! j \<in> set (concat img)"
proof -
  have "img ! i \<in> set img" "img ! i ! j \<in> set (img ! i)"
    using assms by (simp_all add: rect_length rect_nth)
  then show ?thesis unfolding set_concat by blast
qed

lemma in_set_nonempty: "x \<in> set xs \<Longrightarrow> xs \<noteq> []"
  by (cases xs) simp_all

lemma in_concatD:
  "x \<in> set (concat img) \<Longrightarrow> \<exists>i < length img. \<exists>j < length (img ! i). x = img ! i ! j"
  by (auto simp: in_set_conv_nth) metis

lemma lee_temp_rect: "rect h w db \<Longrightarrow> rect h w (lee_temp db)"
  unfolding lee_temp_def by (rule rect_map)

lemma lee_temp_nth: "rect h w db \<Longrightarrow> i < h \<Longrightarrow> j < w \<Longrightarrow> lee_temp db ! i ! j = nan_to_num (- 40) (db ! i ! j)"
  by (simp add: lee_temp_def rect_length rect_nth)

lemma lee_filter_rect: "rect h w db \<Longrightarrow> rect h w (lee_filter db)"
  by (rule rectI) (simp_all add: lee_filter_def Let_def rect_length rect_nth)

lemma lee_filter_nth:
  assumes "rect h w db" "i < h" "j < w"
  shows "lee_filter db ! i ! j =
     (if isnan (db ! i ! j) then NaN
      else lee_px (uniform_filter 5 (lee_temp db) ! i ! j)
                  (uniform_filter 5 (map (map (\<lambda>x. x\<^sup>2)) (lee_temp db)) ! i ! j)
                  (np_var (concat (lee_temp db)))
                  (lee_temp db ! i ! j))"
  using assms by (simp add: lee_filter_def Let_def rect_length rect_nth)

lemma concat_temp_nonempty:
  assumes "rect h w db" "i < h" "j < w"
  shows "concat (lee_temp db) \<noteq> []"
proof -
  have "lee_temp db ! i ! j \<in> set (concat (lee_temp db))"
    using lee_temp_rect[OF assms(1)] assms(2,3) by (rule nth_in_concat)
  then show ?thesis by (rule in_set_nonempty)
qed

text \<open>A raster that is constant after the substitution of the floor value.\<close>

lemma lee_const_nan:
  assumes r: "rect h w db" and "i < h" "j < w"
    and c: "\<And>i j. i < h \<Longrightarrow> j < w \<Longrightarrow> lee_temp db ! i ! j = c"
  shows "lee_filter db ! i ! j = NaN"
proof -
  let ?t = "lee_temp db"
  have rt: "rect h w ?t" using r by (rule lee_temp_rect)
  have m: "uniform_filter 5 ?t ! i ! j = c"
    using uniform_filter_const[OF rt c _ assms(2,3)] by simp
  have rq: "rect h w (map (map (\<lambda>x. x\<^sup>2)) ?t)" using rt by (rule rect_map)
  have "map (map (\<lambda>x. x\<^sup>2)) ?t ! i' ! j' = c\<^sup>2" if "i' < h" "j' < w" for i' j'
    using that rt c by (simp add: rect_length rect_nth)
  then have q: "uniform_filter 5 (map (map (\<lambda>x. x\<^sup>2)) ?t) ! i ! j = c\<^sup>2"
    using uniform_filter_const[OF rq _ _ assms(2,3), of "c\<^sup>2"] by simp
  have "x = c" if "x \<in> set (concat ?t)" for x
    using in_concatD[OF that] c rt by (auto simp: rect_length rect_nth)
  then have v: "np_var (concat ?t) = Fin 0"
    using concat_temp_nonempty[OF assms(1,2,3)] by (intro np_var_const)
  show ?thesis
    by (simp add: lee_filter_nth[OF assms(1,2,3)] m q v lee_px_def)
qed

lemma lee_uniform_all_nan:
  assumes "0 < h" "0 < w"
  shows "lee_filter (replicate h (replicate w (Fin c))) = replicate h (replicate w NaN)"
proof -
  let ?db = "replicate h (replicate w (Fin c))"
  have r: "rect h w ?db" by (simp add: rect_def)
  have t: "lee_temp ?db ! i ! j = c" if "i < h" "j < w" for i j
    using that by (simp add: lee_temp_nth[OF r] nan_to_num_def)
  have "lee_filter ?db ! i ! j = NaN" if "i < h" "j < w" for i j
    using lee_const_nan[OF r that] t by simp
  moreover have "rect h w (lee_filter ?db)" using r by (rule lee_filter_rect)
  ultimately show ?thesis
    by (auto simp: list_eq_iff_nth_eq rect_length rect_nth)
qed

lemma mask_px_in_range: "mask_px v = (if in_db_range v then v else NaN)"
  by (cases v) (auto simp: mask_px_def in_db_range_def Let_def)

lemma lee_px_fl_exact: "lee_px_fl exact m q ov t = lee_px m q ov t"
  by (simp add: lee_px_fl_def lee_px_def r_add_def r_sub_def r_mul_def r_div_def round_fin_exact
      np_sub_def power2_eq_square Let_def)

lemma lee_filter_fl_exact: "lee_filter_fl exact_numerics db = lee_filter db"
proof -
  have e: "(\<lambda>x. exact (x * x)) = (\<lambda>x::real. x\<^sup>2)" by (simp add: exact_def power2_eq_square)
  show ?thesis
    by (simp add: lee_filter_fl_def lee_filter_def exact_numerics_def lee_px_fl_exact e Let_def)
qed

lemma uniform_filter_replicate:
  assumes "0 < h" "0 < w"
  shows "uniform_filter 5 (replicate h (replicate w x)) = replicate h (replicate w x)"
proof -
  let ?img = "replicate h (replicate w x)"
  have r: "rect h w ?img" by (simp add: rect_def)
  have "uniform_filter 5 ?img ! i ! j = x" if "i < h" "j < w" for i j
    using uniform_filter_const[OF r _ _ that, of x] by simp
  moreover have "rect h w (uniform_filter 5 ?img)" using r by (rule uniform_filter_rect)
  ultimately show ?thesis by (auto simp: list_eq_iff_nth_eq rect_length rect_nth)
qed

lemma lee_temp_replicate: "lee_temp (replicate h (replicate w (Fin c))) = replicate h (replicate w c)"
  by (simp add: lee_temp_def nan_to_num_def)

lemma lee_px_fl_uniform:
  assumes "rnd 0 = 0" "rnd c = c" "rnd v = v"
  shows "lee_px_fl rnd c (rnd (c * c)) (Fin v) c = (if v = 0 then NaN else Fin c)"
  using assms
  by (simp add: lee_px_fl_def r_add_def r_sub_def r_mul_def r_div_def round_fin_def np_sub_def)

lemma lee_filter_fl_uniform:
  assumes "0 < h" "0 < w"
    and "round32 N 0 = 0" "round32 N c = c"
    and "filter5 N (replicate h (replicate w c)) = replicate h (replicate w c)"
    and "filter5 N (replicate h (replicate w (round32 N (c * c))))
           = replicate h (replicate w (round32 N (c * c)))"
    and "var32 N (concat (replicate h (replicate w c))) = Fin v" "round32 N v = v"
  shows "lee_filter_fl N (replicate h (replicate w (Fin c))) =
           replicate h (replicate w (if v = 0 then NaN else Fin c))"
proof -
  let ?db = "replicate h (replicate w (Fin c))"
  have px: "lee_filter_fl N ?db ! i ! j = (if v = 0 then NaN else Fin c)" if "i < h" "j < w" for i j
    using that assms(5,6,7) lee_px_fl_uniform[OF assms(3,4,8)]
    by (simp add: lee_filter_fl_def Let_def lee_temp_replicate isnan_def)
  have len: "length (lee_filter_fl N ?db) = h" by (simp add: lee_filter_fl_def Let_def)
  have row: "length (lee_filter_fl N ?db ! i) = w" if "i < h" for i
    using that by (simp add: lee_filter_fl_def Let_def)
  show ?thesis using px len row by (auto simp: list_eq_iff_nth_eq)
qed

lemma np_var_replicate:
  assumes "0 < h" "0 < w"
  shows "np_var (concat (replicate h (replicate w c))) = Fin 0"
proof (rule np_var_const)
  have "c \<in> set (concat (replicate h (replicate w c)))" using assms by auto
  then show "concat (replicate h (replicate w c)) \<noteq> []" by (rule in_set_nonempty)
next
  fix x assume "x \<in> set (concat (replicate h (replicate w c)))"
  then show "x = c" by (auto split: if_splits)
qed

lemma lee_filter_fl_nan:
  assumes "i < length db" "j < length (db ! i)" "isnan (db ! i ! j)"
  shows "lee_filter_fl N db ! i ! j = NaN"
  using assms by (simp add: lee_filter_fl_def Let_def)

lemma lee_filter_fl_shape:
  "length (lee_filter_fl N db) = length db"
  "i < length db \<Longrightarrow> length (lee_filter_fl N db ! i) = length (db ! i)"
  by (simp_all add: lee_filter_fl_def Let_def)

lemma sigma0_db_window_nth:
  assumes "i < length vh" "j < length (vh ! i)"
  shows "sigma0_db_window vh ! i ! j = mask_px (sigma0_db_px (vh ! i ! j))"
    and "length (sigma0_db_window vh) = length vh"
    and "length (sigma0_db_window vh ! i) = length (vh ! i)"
  using assms by (simp_all add: sigma0_db_window_def mask_db_def sigma0_db_def)


text \<open>
  Claim C4, as the code has it. On a perfectly uniform window (every pixel the same
  number \<open>c\<close>, no no-data position) the local mean is \<open>c\<close> and the local variance is 0,
  whatever the rounding. What the filter returns depends on the global variance \<open>v\<close>
  that \<open>np.var\<close> computes: when \<open>v\<close> is not 0 (float32 summation leaves rounding noise
  on many constants) the ratio is \<open>0 / v = 0\<close> and the constant raster is returned
  unchanged; when \<open>v\<close> is 0 the ratio is \<open>0 / 0\<close>, which numpy evaluates to \<open>NaN\<close> and
  not to 0, and the filtered raster is no-data at every pixel.
\<close>

theorem lee_filter_uniform:
  assumes "0 < h" "0 < w"
    and "round32 N 0 = 0" "round32 N c = c"
    and "filter5 N (replicate h (replicate w c)) = replicate h (replicate w c)"
    and "filter5 N (replicate h (replicate w (round32 N (c * c))))
           = replicate h (replicate w (round32 N (c * c)))"
    and "var32 N (concat (replicate h (replicate w c))) = Fin v" "round32 N v = v"
  shows "(v \<noteq> 0 \<longrightarrow>
            lee_filter_fl N (replicate h (replicate w (Fin c))) = replicate h (replicate w (Fin c))) \<and>
         (v = 0 \<longrightarrow>
            r_div (round32 N) (Fin 0) (r_add (round32 N) (Fin 0) (Fin v)) = NaN \<and>
            lee_filter_fl N (replicate h (replicate w (Fin c))) = replicate h (replicate w NaN))"
  using lee_filter_fl_uniform[OF assms] assms(3)
  by (simp add: r_div_def r_add_def round_fin_def)

theorem lee_filter_uniform_witness:
  "lee_filter_fl noisy_numerics (replicate 5 (replicate 5 (Fin (- 6313057 / 2097152)))) =
     replicate 5 (replicate 5 (Fin (- 6313057 / 2097152))) \<and>
   lee_filter_fl exact_numerics (replicate 5 (replicate 5 (Fin (- 3)))) = replicate 5 (replicate 5 NaN)"
proof -
  have f: "uniform_filter 5 (replicate 5 (replicate 5 x)) = replicate 5 (replicate 5 x)" for x :: real
    by (rule uniform_filter_replicate) simp_all
  have 1: "lee_filter_fl noisy_numerics (replicate 5 (replicate 5 (Fin (- 6313057 / 2097152)))) =
             replicate 5 (replicate 5 (Fin (- 6313057 / 2097152)))"
    using lee_filter_uniform[of 5 5 noisy_numerics "- 6313057 / 2097152" "1 / 2 ^ 44"] f
    by (simp add: noisy_numerics_def exact_def)
  have v: "np_var (concat (replicate 5 (replicate 5 (- 3)))) = Fin 0"
    by (rule np_var_replicate) simp_all
  have 2: "lee_filter_fl exact_numerics (replicate 5 (replicate 5 (Fin (- 3)))) = replicate 5 (replicate 5 NaN)"
    using lee_filter_uniform[of 5 5 exact_numerics "- 3" 0] f v
    by (simp add: exact_numerics_def exact_def)
  from 1 2 show ?thesis by simp
qed

text \<open>
  On a 5 by 5 window of 0 dB every operation is exact in float32 as well: the variance is
  0, the ratio is \<open>0 / 0\<close> and the output is no-data everywhere.
\<close>

theorem lee_filter_uniform_counterexample:
  "lee_filter (replicate 5 (replicate 5 (Fin 0))) = replicate 5 (replicate 5 NaN) \<and>
   lee_filter (replicate 5 (replicate 5 (Fin 0))) \<noteq> replicate 5 (replicate 5 (Fin 0)) \<and>
   lee_filter_fl exact_numerics (replicate 5 (replicate 5 (Fin 0))) = replicate 5 (replicate 5 NaN)"
proof -
  have "lee_filter (replicate 5 (replicate 5 (Fin 0))) = replicate 5 (replicate 5 NaN)"
    by (rule lee_uniform_all_nan) simp_all
  moreover have "replicate 5 (replicate 5 NaN) \<noteq> replicate 5 (replicate 5 (Fin 0))"
    by (simp add: eval_nat_numeral)
  ultimately show ?thesis by (simp add: lee_filter_fl_exact)
qed

text \<open>
  Claim C5, as the code has it. For every masked decibel raster given to the filter and
  whatever the rounding, the local sums and the global variance, the filtered raster has
  the shape of the input and is no-data at every position that is no-data in the input;
  so the floor value \<open>-40\<close> substituted there during filtering never shows at those
  positions. Other positions can be no-data as well.
\<close>

theorem lee_filter_nodata:
  assumes "i < length db" "j < length (db ! i)"
  shows "length (lee_filter_fl N db) = length db \<and>
         length (lee_filter_fl N db ! i) = length (db ! i) \<and>
         (isnan (db ! i ! j) \<longrightarrow>
            lee_filter_fl N db ! i ! j = NaN \<and> lee_filter_fl N db ! i ! j \<noteq> Fin (- 40))"
proof -
  have 1: "length (lee_filter_fl N db) = length db" by (rule lee_filter_fl_shape(1))
  have 2: "length (lee_filter_fl N db ! i) = length (db ! i)"
    using assms(1) by (rule lee_filter_fl_shape(2))
  have 3: "lee_filter_fl N db ! i ! j = NaN" if "isnan (db ! i ! j)"
    using assms that by (rule lee_filter_fl_nan)
  show ?thesis using 1 2 3 by simp
qed

theorem lee_filter_nodata_witness:
  "isnan ([[NaN, Fin 0]] ! 0 ! 0) \<and>
   lee_filter_fl exact_numerics [[NaN, Fin 0]] ! 0 ! 0 = NaN \<and>
   lee_filter_fl exact_numerics [[NaN, Fin 0]] ! 0 ! 0 \<noteq> Fin (- 40) \<and>
   length (lee_filter_fl exact_numerics [[NaN, Fin 0]] ! 0) = 2"
proof -
  have a: "isnan ([[NaN, Fin 0]] ! 0 ! 0)" by (simp add: isnan_def)
  from lee_filter_nodata[of 0 "[[NaN, Fin 0]]" 0 exact_numerics] a show ?thesis by simp
qed

text \<open>
  A 5 by 5 window of digital number 10000 has no no-data position after masking, and the
  filtered window is no-data at every pixel.
\<close>

lemma uniform_window_db:
  "sigma0_db_window (replicate h (replicate w 10000)) = replicate h (replicate w (Fin (10 * log 10 (1 + eps))))"
  using db_10000_range
  by (simp add: sigma0_db_window_def mask_db_def sigma0_db_def db_of_10000 mask_px_Fin)

theorem lee_filter_nodata_counterexample:
  "\<not> isnan (sigma0_db_window (replicate 5 (replicate 5 10000)) ! 0 ! 0) \<and>
   isnan (radar_lee (replicate 5 (replicate 5 10000)) ! 0 ! 0) \<and>
   isnan (radar_lee_fl exact_numerics (replicate 5 (replicate 5 10000)) ! 0 ! 0)"
proof -
  have "radar_lee (replicate 5 (replicate 5 10000)) = replicate 5 (replicate 5 NaN)"
    unfolding radar_lee_def uniform_window_db by (rule lee_uniform_all_nan) simp_all
  then show ?thesis
    by (simp add: uniform_window_db isnan_def radar_lee_fl_def lee_filter_fl_exact radar_lee_def)
qed

text \<open>
  Claim C10. Two raw windows of the same shape whose out-of-range positions coincide and
  whose decibel values agree wherever both are in range give the same filtered raster:
  how far outside the range a masked value lies has no influence on the output.
\<close>

theorem lee_filter_mask_only:
  assumes "length w1 = length w2"
    and "\<forall>i < length w1. length (w1 ! i) = length (w2 ! i)"
    and "\<forall>i < length w1. \<forall>j < length (w1 ! i).
           in_db_range (sigma0_db_px (w1 ! i ! j)) = in_db_range (sigma0_db_px (w2 ! i ! j))"
    and "\<forall>i < length w1. \<forall>j < length (w1 ! i).
           in_db_range (sigma0_db_px (w1 ! i ! j)) \<and> in_db_range (sigma0_db_px (w2 ! i ! j))
           \<longrightarrow> sigma0_db_px (w1 ! i ! j) = sigma0_db_px (w2 ! i ! j)"
  shows "radar_lee w1 = radar_lee w2"
proof -
  have "sigma0_db_window w1 = sigma0_db_window w2"
    unfolding sigma0_db_window_def mask_db_def sigma0_db_def list_eq_iff_nth_eq
  proof (intro conjI allI impI)
    show "length (map (map mask_px) (map (map sigma0_db_px) w1)) =
          length (map (map mask_px) (map (map sigma0_db_px) w2))" using assms(1) by simp
  next
    fix i assume "i < length (map (map mask_px) (map (map sigma0_db_px) w1))"
    then have i: "i < length w1" by simp
    then have i2: "i < length w2" using assms(1) by simp
    show "length (map (map mask_px) (map (map sigma0_db_px) w1) ! i) =
          length (map (map mask_px) (map (map sigma0_db_px) w2) ! i)"
      using i i2 assms(2) by simp
  next
    fix i j assume "i < length (map (map mask_px) (map (map sigma0_db_px) w1))"
      and j0: "j < length (map (map mask_px) (map (map sigma0_db_px) w1) ! i)"
    then have i: "i < length w1" by simp
    then have i2: "i < length w2" using assms(1) by simp
    have j: "j < length (w1 ! i)" using j0 i by simp
    then have j2: "j < length (w2 ! i)" using i assms(2) by simp
    have "mask_px (sigma0_db_px (w1 ! i ! j)) = mask_px (sigma0_db_px (w2 ! i ! j))"
      using assms(3,4) i j by (simp add: mask_px_in_range)
    then show "map (map mask_px) (map (map sigma0_db_px) w1) ! i ! j =
               map (map mask_px) (map (map sigma0_db_px) w2) ! i ! j"
      using i i2 j j2 by simp
  qed
  then show ?thesis by (simp add: radar_lee_def)
qed

theorem lee_filter_mask_only_witness:
  "\<not> in_db_range (sigma0_db_px 0) \<and> \<not> in_db_range (sigma0_db_px 65535) \<and>
   sigma0_db_px 0 \<noteq> sigma0_db_px 65535 \<and>
   radar_lee [[0, 10000]] = radar_lee [[65535, 10000]]"
proof -
  obtain r where r: "sigma0_db_px 65535 = Fin r" "5 < r" using db_of_65535 by blast
  have a: "\<not> in_db_range (sigma0_db_px 0)" by (simp add: db_of_zero in_db_range_def)
  have b: "\<not> in_db_range (sigma0_db_px 65535)" using r by (simp add: in_db_range_def)
  have c: "sigma0_db_px 0 \<noteq> sigma0_db_px 65535" using r by (simp add: db_of_zero)
  have "radar_lee [[0, 10000]] = radar_lee [[65535, 10000]]"
    using a b by (intro lee_filter_mask_only) (simp_all add: nth_Cons' less_Suc_eq)
  with a b c show ?thesis by simp
qed

section \<open>Properties of the vegetation index and the cloud mask\<close>

lemma eps_pos: "0 < eps"
  by (simp add: eps_def)

lemma shape_rect: "rect h w a \<Longrightarrow> shape a = (h, if h = 0 then 0 else w)"
  by (cases a) (auto simp: rect_def shape_def)

lemma bidx_same: "i < m \<Longrightarrow> bidx m i = i"
  by (auto simp: bidx_def)

lemma bidx_less: "bdim m n = Some h \<Longrightarrow> i < h \<Longrightarrow> bidx m i < m \<and> bidx n i < n"
  by (auto simp: bdim_def bidx_def split: if_splits)

lemma np_binop_same:
  assumes "rect h w a" "rect h w b"
  shows "np_binop f a b = Inr (map (\<lambda>i. map (\<lambda>j. f (a ! i ! j) (b ! i ! j)) [0..<w]) [0..<h])"
proof (cases "h = 0")
  case True
  then show ?thesis using assms by (simp add: np_binop_def shape_rect bdim_def)
next
  case False
  then show ?thesis using assms
    by (simp add: np_binop_def shape_rect bdim_def bidx_same cong: map_cong)
qed

lemma np_binop_px:
  assumes "rect ha wa a" "rect hb wb b" "np_binop f a b = Inr c" "v \<in> set (concat c)"
  shows "\<exists>x \<in> set (concat a). \<exists>y \<in> set (concat b). v = f x y"
proof -
  let ?wa = "if ha = 0 then 0 else wa" and ?wb = "if hb = 0 then 0 else wb"
  have sa: "shape a = (ha, ?wa)" and sb: "shape b = (hb, ?wb)"
    using assms(1,2) by (simp_all add: shape_rect)
  from assms(3) obtain h w where h: "bdim ha hb = Some h" and w: "bdim ?wa ?wb = Some w"
    and c: "c = map (\<lambda>i. map (\<lambda>j. f (a ! bidx ha i ! bidx ?wa j) (b ! bidx hb i ! bidx ?wb j))
                 [0..<w]) [0..<h]"
    unfolding np_binop_def sa sb by (auto split: option.splits)
  from assms(4) obtain i j where ij: "i < h" "j < w"
    and v: "v = f (a ! bidx ha i ! bidx ?wa j) (b ! bidx hb i ! bidx ?wb j)"
    unfolding c by auto
  have bi: "bidx ha i < ha" "bidx hb i < hb" using bidx_less[OF h ij(1)] by simp_all
  have bj: "bidx ?wa j < ?wa" "bidx ?wb j < ?wb" using bidx_less[OF w ij(2)] by simp_all
  have ja: "bidx ?wa j < wa" using bj(1) by (auto split: if_splits)
  have jb: "bidx ?wb j < wb" using bj(2) by (auto split: if_splits)
  have "a ! bidx ha i ! bidx ?wa j \<in> set (concat a)"
    using nth_in_concat[OF assms(1) bi(1) ja] .
  moreover have "b ! bidx hb i ! bidx ?wb j \<in> set (concat b)"
    using nth_in_concat[OF assms(2) bi(2) jb] .
  ultimately show ?thesis using v by blast
qed

lemma reflectance_rect: "rect h w dn \<Longrightarrow> rect h w (reflectance dn)"
  unfolding reflectance_def by (rule rect_map)

lemma reflectance_mem:
  "x \<in> set (concat (reflectance dn)) \<Longrightarrow> \<exists>d \<in> set (concat dn). x = real_of_int d / 10000"
  by (auto simp: reflectance_def)

lemma ndvi_same:
  assumes "rect h w red_dn" "rect h w nir_dn"
  shows "ndvi red_dn nir_dn =
     Inr (map (\<lambda>i. map (\<lambda>j. ndvi_px (real_of_int (red_dn ! i ! j) / 10000)
                                      (real_of_int (nir_dn ! i ! j) / 10000)) [0..<w]) [0..<h])"
proof -
  have "ndvi red_dn nir_dn =
      Inr (map (\<lambda>i. map (\<lambda>j. ndvi_px (reflectance red_dn ! i ! j) (reflectance nir_dn ! i ! j))
                      [0..<w]) [0..<h])"
    unfolding ndvi_def Let_def
    by (rule np_binop_same[OF reflectance_rect[OF assms(2)] reflectance_rect[OF assms(1)]])
  also have "\<dots> = Inr (map (\<lambda>i. map (\<lambda>j. ndvi_px (real_of_int (red_dn ! i ! j) / 10000)
                                      (real_of_int (nir_dn ! i ! j) / 10000)) [0..<w]) [0..<h])"
    using assms by (simp add: reflectance_def rect_length rect_nth cong: map_cong)
  finally show ?thesis .
qed

lemma ndvi_int_Fin: "\<exists>x. ndvi_px (real_of_int r / 10000) (real_of_int n / 10000) = Fin x"
proof -
  have "real_of_int n / 10000 + real_of_int r / 10000 + eps \<noteq> 0"
  proof
    assume "real_of_int n / 10000 + real_of_int r / 10000 + eps = 0"
    then have "(real_of_int n / 10000 + real_of_int r / 10000 + eps) * 10 ^ 10 = 0" by simp
    then have "real_of_int ((n + r) * 10 ^ 6 + 1) = 0"
      by (simp add: eps_def algebra_simps)
    then have "(n + r) * 10 ^ 6 + 1 = 0" by (simp only: of_int_eq_0_iff)
    then have "(n + r) * 1000000 = - 1" by simp
    then have "(1000000::int) dvd - 1" by (metis dvd_triv_right)
    then show False by simp
  qed
  then show ?thesis by (simp add: ndvi_px_def)
qed

lemma ndvi_masked_same:
  assumes "rect h w scl_resampled" "rect h w nd"
  shows "ndvi_masked scl_resampled nd =
     Inr (map (\<lambda>i. map (\<lambda>j. if scl_resampled ! i ! j \<in> {3, 8, 9, 10, 11} then NaN else nd ! i ! j)
                     [0..<w]) [0..<h])"
proof -
  have r: "rect h w (cloud_mask scl_resampled)"
    unfolding cloud_mask_def using assms(1) by (rule rect_map)
  have "ndvi_masked scl_resampled nd =
      Inr (map (\<lambda>i. map (\<lambda>j. if cloud_mask scl_resampled ! i ! j then NaN else nd ! i ! j)
                      [0..<w]) [0..<h])"
    unfolding ndvi_masked_def by (rule np_binop_same[OF r assms(2)])
  also have "\<dots> = Inr (map (\<lambda>i. map (\<lambda>j. if scl_resampled ! i ! j \<in> {3, 8, 9, 10, 11} then NaN else nd ! i ! j)
                     [0..<w]) [0..<h])"
    using assms(1) by (simp add: cloud_mask_def excluded_classes_def rect_length rect_nth cong: map_cong)
  finally show ?thesis .
qed

text \<open>
  Claim C9. For red and near-infrared windows of one shape and a resampled
  classification raster of that shape, the pipeline returns the index raster together
  with the masked raster. The masked raster is no-data at exactly the positions whose
  resampled classification code is one of 3, 8, 9, 10, 11 and equals the index raster at
  every other position; so it is entirely no-data when every code is excluded, and it is
  the index raster when no code is. The index raster itself is returned as computed.
\<close>

theorem cloud_mask_exact:
  assumes "rect h w red_dn" "rect h w nir_dn"
    and "ndvi red_dn nir_dn = Inr nd"
    and "scl_resampled = resize (map (map real_of_int) scl) (shape nd)"
    and "rect h w scl_resampled"
  shows "\<exists>masked. optical_pipeline resize red_dn nir_dn scl = Inr (nd, masked) \<and>
           ndvi_masked scl_resampled nd = Inr masked \<and> rect h w masked \<and>
           (\<forall>i<h. \<forall>j<w.
              (isnan (masked ! i ! j) \<longleftrightarrow> scl_resampled ! i ! j \<in> {3, 8, 9, 10, 11}) \<and>
              (scl_resampled ! i ! j \<notin> {3, 8, 9, 10, 11} \<longrightarrow> masked ! i ! j = nd ! i ! j)) \<and>
           ((\<forall>i<h. \<forall>j<w. scl_resampled ! i ! j \<in> {3, 8, 9, 10, 11}) \<longrightarrow>
              masked = replicate h (replicate w NaN)) \<and>
           ((\<forall>i<h. \<forall>j<w. scl_resampled ! i ! j \<notin> {3, 8, 9, 10, 11}) \<longrightarrow> masked = nd)"
proof -
  let ?X = "{3, 8, 9, 10, 11} :: real set"
  let ?m = "map (\<lambda>i. map (\<lambda>j. if scl_resampled ! i ! j \<in> ?X then NaN else nd ! i ! j)
                     [0..<w]) [0..<h]"
  have nd: "nd = map (\<lambda>i. map (\<lambda>j. ndvi_px (real_of_int (red_dn ! i ! j) / 10000)
                                      (real_of_int (nir_dn ! i ! j) / 10000)) [0..<w]) [0..<h]"
    using ndvi_same[OF assms(1,2)] assms(3) by simp
  have rnd: "rect h w nd" by (subst nd, rule rectI) simp_all
  have fin: "\<not> isnan (nd ! i ! j)" if "i < h" "j < w" for i j
  proof -
    have "nd ! i ! j = ndvi_px (real_of_int (red_dn ! i ! j) / 10000) (real_of_int (nir_dn ! i ! j) / 10000)"
      using that by (subst nd) simp
    then show ?thesis using ndvi_int_Fin[of "red_dn ! i ! j" "nir_dn ! i ! j"] by (auto simp: isnan_def)
  qed
  have m: "ndvi_masked scl_resampled nd = Inr ?m"
    using ndvi_masked_same[OF assms(5) rnd] .
  have p: "optical_pipeline resize red_dn nir_dn scl = Inr (nd, ?m)"
    using m assms(3,4) by (simp add: optical_pipeline_def Let_def)
  have rm: "rect h w ?m" by (rule rectI) simp_all
  have px: "\<forall>i<h. \<forall>j<w.
              (isnan (?m ! i ! j) \<longleftrightarrow> scl_resampled ! i ! j \<in> ?X) \<and>
              (scl_resampled ! i ! j \<notin> ?X \<longrightarrow> ?m ! i ! j = nd ! i ! j)"
    using fin by (simp add: isnan_def)
  have all: "(\<forall>i<h. \<forall>j<w. scl_resampled ! i ! j \<in> ?X) \<longrightarrow> ?m = replicate h (replicate w NaN)"
    by (auto simp: list_eq_iff_nth_eq)
  have none: "(\<forall>i<h. \<forall>j<w. scl_resampled ! i ! j \<notin> ?X) \<longrightarrow> ?m = nd"
  proof
    assume a: "\<forall>i<h. \<forall>j<w. scl_resampled ! i ! j \<notin> ?X"
    show "?m = nd"
      using a rnd by (auto simp: list_eq_iff_nth_eq rect_length rect_nth)
  qed
  show ?thesis using p m rm px all none by blast
qed

lemma upt_4: "[0..<4] = [0, 1, 2, 3]" "[0..<2] = [0, 1]" "[0..<1] = [0]"
  by (simp_all add: upt_rec)

theorem cloud_mask_exact_witness:
  "rect 1 4 [[1000, 1000, 1000, 1000::int]] \<and> rect 1 4 [[3000, 3000, 3000, 3000::int]] \<and>
   nearest (map (map real_of_int) [[4, 9]]) (1, 4) = [[4, 4, 9, 9]] \<and>
   (\<exists>nd masked.
      optical_pipeline nearest [[1000, 1000, 1000, 1000]] [[3000, 3000, 3000, 3000]] [[4, 9]]
        = Inr (nd, masked) \<and>
      masked ! 0 ! 0 = nd ! 0 ! 0 \<and> \<not> isnan (masked ! 0 ! 1) \<and>
      isnan (masked ! 0 ! 2) \<and> isnan (masked ! 0 ! 3))"
proof -
  let ?red = "[[1000, 1000, 1000, 1000::int]]" and ?nir = "[[3000, 3000, 3000, 3000::int]]"
  have r1: "rect 1 4 ?red" and r2: "rect 1 4 ?nir" by (simp_all add: rect_def)
  obtain nd where nd: "ndvi ?red ?nir = Inr nd" "shape nd = (1, 4)"
    by (simp add: ndvi_same[OF r1 r2] upt_4 shape_def)
  have s: "nearest (map (map real_of_int) [[4, 9]]) (1, 4) = [[4, 4, 9, 9]]"
    by (simp add: nearest_def upt_4)
  have sr: "[[4, 4, 9, 9]] = nearest (map (map real_of_int) [[4, 9]]) (shape nd)"
    using s by (simp add: nd(2))
  have rs: "rect 1 4 [[4, 4, 9, 9::real]]" by (simp add: rect_def)
  from cloud_mask_exact[where resize = nearest and scl = "[[4, 9]]", OF r1 r2 nd(1) sr rs]
  obtain masked where m: "optical_pipeline nearest ?red ?nir [[4, 9]] = Inr (nd, masked)"
    and px: "\<forall>i<1. \<forall>j<4.
       (isnan (masked ! i ! j) \<longleftrightarrow> [[4, 4, 9, 9::real]] ! i ! j \<in> {3, 8, 9, 10, 11}) \<and>
       ([[4, 4, 9, 9::real]] ! i ! j \<notin> {3, 8, 9, 10, 11} \<longrightarrow> masked ! i ! j = nd ! i ! j)"
    by blast
  have nan_iff: "isnan (masked ! 0 ! j) \<longleftrightarrow> [[4, 4, 9, 9::real]] ! 0 ! j \<in> {3, 8, 9, 10, 11}"
    if "j < 4" for j using px that by blast
  have keep: "masked ! 0 ! j = nd ! 0 ! j"
    if "j < 4" "[[4, 4, 9, 9::real]] ! 0 ! j \<notin> {3, 8, 9, 10, 11}" for j using px that by blast
  have 0: "masked ! 0 ! 0 = nd ! 0 ! 0" by (rule keep) simp_all
  have 1: "\<not> isnan (masked ! 0 ! 1)" by (subst nan_iff) simp_all
  have 2: "isnan (masked ! 0 ! 2)" by (subst nan_iff) simp_all
  have 3: "isnan (masked ! 0 ! 3)" by (subst nan_iff) simp_all
  show ?thesis using r1 r2 s m 0 1 2 3 by blast
qed

lemma ndvi_px_fl_eq:
  "ndvi_px_fl rnd red nir =
     (let n = rnd (nir - red); d = rnd (rnd (nir + red) + rnd eps)
      in if d \<noteq> 0 then Fin (rnd (n / d)) else if n = 0 then NaN else if 0 < n then PInf else NInf)"
  by (simp add: ndvi_px_fl_def r_div_def r_sub_def r_add_def np_sub_def round_fin_def Let_def)

lemma ndvi_denominator:
  assumes "rounding rnd" "0 < rnd eps" "0 \<le> red" "0 \<le> nir"
  shows "rnd (nir + red) \<le> rnd (rnd (nir + red) + rnd eps)" "0 < rnd (rnd (nir + red) + rnd eps)"
proof -
  let ?s = "rnd (nir + red)"
  have s0: "0 \<le> ?s" using rounding_mono[OF assms(1), of 0 "nir + red"] rounding_0[OF assms(1)] assms(3,4) by simp
  have "rnd ?s \<le> rnd (?s + rnd eps)" using assms(2) by (intro rounding_mono[OF assms(1)]) simp
  then show 1: "?s \<le> rnd (?s + rnd eps)" by (simp add: rounding_idem[OF assms(1)])
  have "rnd (rnd eps) \<le> rnd (?s + rnd eps)" using s0 by (intro rounding_mono[OF assms(1)]) simp
  then show "0 < rnd (?s + rnd eps)" using assms(2) by (simp add: rounding_idem[OF assms(1)])
qed

lemma ndvi_px_fl_range:
  assumes "rounding rnd" "0 < rnd eps" "0 \<le> red" "0 \<le> nir"
  shows "\<exists>x. ndvi_px_fl rnd red nir = Fin x \<and> - 1 \<le> x \<and> x \<le> 1"
proof -
  let ?n = "rnd (nir - red)" and ?s = "rnd (nir + red)"
  let ?d = "rnd (?s + rnd eps)"
  note d = ndvi_denominator[OF assms]
  have up: "?n \<le> ?s" using assms(3) by (intro rounding_mono[OF assms(1)]) simp
  have "rnd (- (nir + red)) \<le> ?n" using assms(4) by (intro rounding_mono[OF assms(1)]) simp
  then have lo: "- ?s \<le> ?n" by (simp only: rounding_neg[OF assms(1)])
  have q1: "?n / ?d \<le> 1" using up d by (simp add: divide_le_eq_1)
  have q0: "- 1 \<le> ?n / ?d" using lo d by (simp add: pos_le_divide_eq)
  have "- 1 \<le> rnd (?n / ?d)" "rnd (?n / ?d) \<le> 1" using rounding_unit[OF assms(1) q0 q1] .
  then show ?thesis using d(2) by (simp add: ndvi_px_fl_eq Let_def)
qed

lemma ndvi_px_fl_equal:
  assumes "rounding rnd" "0 < rnd eps" "0 \<le> x"
  shows "ndvi_px_fl rnd x x = Fin 0"
  using ndvi_denominator(2)[OF assms(1,2) assms(3) assms(3)] rounding_0[OF assms(1)]
  by (simp add: ndvi_px_fl_eq Let_def)

text \<open>
  The quotient \<open>nir / (nir + e)\<close> with its denominator and its result rounded, each with
  a relative error of at most \<open>u\<close>.
\<close>

lemma rounded_quotient_near_one:
  fixes nir e u d x :: real
  assumes "0 < nir" "0 < e" "0 \<le> u" "u < 1"
    and d: "\<bar>d - (nir + e)\<bar> \<le> u * \<bar>nir + e\<bar>"
    and x: "\<bar>x - nir / d\<bar> \<le> u * \<bar>nir / d\<bar>"
  shows "\<bar>x - 1\<bar> \<le> e / (nir + e) + 2 * u / (1 - u)"
proof -
  let ?s = "nir + e"
  have s: "0 < ?s" using assms(1,2) by simp
  have dl: "?s * (1 - u) \<le> d" and du: "d \<le> ?s * (1 + u)"
    using d s by (simp_all add: abs_le_iff algebra_simps)
  have dpos: "0 < d" using dl s assms(4) by (smt (verit) mult_pos_pos)
  have q: "0 < nir / d" using assms(1) dpos by simp
  have aq: "\<bar>nir / d\<bar> = nir / d" using q by (rule abs_of_pos)
  have x': "\<bar>x - nir / d\<bar> \<le> u * (nir / d)" using x unfolding aq .
  have xl: "nir / d * (1 - u) \<le> x"
  proof -
    have "nir / d - u * (nir / d) \<le> x" using x' by (simp add: abs_le_iff)
    moreover have "nir / d * (1 - u) = nir / d - u * (nir / d)" by (simp add: right_diff_distrib)
    ultimately show ?thesis by simp
  qed
  have xu: "x \<le> nir / d * (1 + u)"
  proof -
    have "x \<le> nir / d + u * (nir / d)" using x' by (simp add: abs_le_iff)
    moreover have "nir / d * (1 + u) = nir / d + u * (nir / d)" by (simp add: distrib_left)
    ultimately show ?thesis by simp
  qed
  have u1: "0 < 1 - u" using assms(4) by simp

  have "nir / d \<le> nir / (?s * (1 - u))"
    using dl s u1 assms(1) by (intro divide_left_mono) (simp_all add: dpos)
  also have "\<dots> \<le> ?s / (?s * (1 - u))"
    using s u1 assms(2) by (intro divide_right_mono) simp_all
  also have "\<dots> = 1 / (1 - u)" using s by simp
  finally have qu: "nir / d \<le> 1 / (1 - u)" .
  have "x \<le> 1 / (1 - u) * (1 + u)"
    using xu qu assms(3) by (smt (verit) mult_right_mono)
  also have "\<dots> = 1 + 2 * u / (1 - u)" using u1 by (simp add: field_simps)
  finally have upper: "x - 1 \<le> 2 * u / (1 - u)" by simp

  have "nir / (?s * (1 + u)) \<le> nir / d"
    using du dpos assms(1,3) by (intro divide_left_mono) (simp_all add: s)
  then have ql: "nir / ?s / (1 + u) \<le> nir / d" by (simp add: mult.commute)
  have r0: "0 \<le> nir / ?s" "nir / ?s \<le> 1" using assms(1,2) s by simp_all
  have "(1 - 2 * u) * (1 + u) \<le> 1 - u" using assms(3) by (simp add: algebra_simps)
  then have f: "1 - 2 * u \<le> (1 - u) / (1 + u)" using assms(3) by (simp add: pos_le_divide_eq)
  have "nir / ?s * (1 - 2 * u) \<le> nir / ?s * ((1 - u) / (1 + u))"
    using f r0(1) by (rule mult_left_mono)
  also have "\<dots> = nir / ?s / (1 + u) * (1 - u)" by simp
  also have "\<dots> \<le> nir / d * (1 - u)" using ql u1 by (intro mult_right_mono) simp_all
  also have "\<dots> \<le> x" by (rule xl)
  finally have "nir / ?s - 2 * u * (nir / ?s) \<le> x" by (simp add: algebra_simps)
  moreover have "2 * u * (nir / ?s) \<le> 2 * u * 1" using r0(2) assms(3) by (intro mult_left_mono) simp_all
  ultimately have "nir / ?s - 2 * u \<le> x" by simp
  moreover have "nir / ?s = 1 - e / ?s" using s by (simp add: field_simps)
  ultimately have lower1: "1 - x \<le> e / ?s + 2 * u" by simp
  have "2 * u * (1 - u) \<le> 2 * u * 1" using assms(3,4) by (intro mult_left_mono) simp_all
  then have "2 * u \<le> 2 * u / (1 - u)" using u1 by (simp add: pos_le_divide_eq)
  with lower1 have lower: "1 - x \<le> e / ?s + 2 * u / (1 - u)" by simp
  have "0 \<le> e / ?s" using assms(2) s by simp
  with upper lower show ?thesis by (simp add: abs_le_iff)
qed

lemma ndvi_px_fl_red0:
  assumes "rounding rnd" "0 < rnd eps" "0 < nir" "rnd nir = nir" "0 \<le> u" "u < 1"
    and "rel_err rnd u (nir + rnd eps)" "rel_err rnd u (nir / rnd (nir + rnd eps))"
  shows "\<exists>x. ndvi_px_fl rnd 0 nir = Fin x \<and> \<bar>x - 1\<bar> \<le> rnd eps / (nir + rnd eps) + 2 * u / (1 - u)"
proof -
  let ?d = "rnd (nir + rnd eps)"
  have d0: "0 < ?d" using ndvi_denominator(2)[OF assms(1,2), of 0 nir] assms(3,4) by simp
  have v: "ndvi_px_fl rnd 0 nir = Fin (rnd (nir / ?d))"
    using d0 assms(4) by (simp add: ndvi_px_fl_eq Let_def)
  have "\<bar>rnd (nir / ?d) - 1\<bar> \<le> rnd eps / (nir + rnd eps) + 2 * u / (1 - u)"
    using assms(7,8) unfolding rel_err_def
    by (intro rounded_quotient_near_one[OF assms(3) assms(2) assms(5,6)])
  with v show ?thesis by blast
qed

lemma ndvi_px_fl_nir0:
  assumes "rounding rnd" "0 < rnd eps" "0 < red" "rnd red = red" "0 \<le> u" "u < 1"
    and "rel_err rnd u (red + rnd eps)" "rel_err rnd u (red / rnd (red + rnd eps))"
  shows "\<exists>x. ndvi_px_fl rnd red 0 = Fin x \<and> \<bar>x + 1\<bar> \<le> rnd eps / (red + rnd eps) + 2 * u / (1 - u)"
proof -
  let ?d = "rnd (red + rnd eps)"
  have d0: "0 < ?d" using ndvi_denominator(2)[OF assms(1,2), of red 0] assms(3,4) by simp
  have n: "rnd (- red) = - red" using rounding_neg[OF assms(1), of red] assms(4) by simp
  have "rnd (- red / ?d) = - rnd (red / ?d)" using rounding_neg[OF assms(1), of "red / ?d"] by simp
  then have v: "ndvi_px_fl rnd red 0 = Fin (- rnd (red / ?d))"
    using d0 assms(4) n by (simp add: ndvi_px_fl_eq Let_def)
  have "\<bar>rnd (red / ?d) - 1\<bar> \<le> rnd eps / (red + rnd eps) + 2 * u / (1 - u)"
    using assms(7,8) unfolding rel_err_def
    by (intro rounded_quotient_near_one[OF assms(3) assms(2) assms(5,6)])
  moreover have "\<bar>- rnd (red / ?d) + 1\<bar> = \<bar>rnd (red / ?d) - 1\<bar>" by simp
  ultimately show ?thesis using v by auto
qed

lemma reflectance_fl_rect: "rect h w dn \<Longrightarrow> rect h w (reflectance_fl rnd dn)"
  unfolding reflectance_fl_def by (rule rect_map)

lemma reflectance_fl_nonneg:
  assumes "rounding rnd" "\<forall>d \<in> set (concat dn). 0 \<le> d" "x \<in> set (concat (reflectance_fl rnd dn))"
  shows "0 \<le> x"
proof -
  from assms(3) obtain d where d: "d \<in> set (concat dn)" "x = rnd (rnd (real_of_int d) / 10000)"
    by (auto simp: reflectance_fl_def)
  then have "0 \<le> d" using assms(2) by blast
  then have "(0::real) \<le> real_of_int d" by simp
  then have "rnd 0 \<le> rnd (real_of_int d)" by (rule rounding_mono[OF assms(1)])
  then have "0 \<le> rnd (real_of_int d) / 10000" using rounding_0[OF assms(1)] by simp
  then have "rnd 0 \<le> rnd (rnd (real_of_int d) / 10000)" by (rule rounding_mono[OF assms(1)])
  then show ?thesis using d(2) rounding_0[OF assms(1)] by simp
qed

lemma ndvi_fl_same:
  assumes "rect h w red_dn" "rect h w nir_dn"
  shows "ndvi_fl rnd red_dn nir_dn =
     Inr (map (\<lambda>i. map (\<lambda>j. ndvi_px_fl rnd (rnd (rnd (real_of_int (red_dn ! i ! j)) / 10000))
                                         (rnd (rnd (real_of_int (nir_dn ! i ! j)) / 10000))) [0..<w]) [0..<h])"
proof -
  have "ndvi_fl rnd red_dn nir_dn =
      Inr (map (\<lambda>i. map (\<lambda>j. ndvi_px_fl rnd (reflectance_fl rnd red_dn ! i ! j)
                                          (reflectance_fl rnd nir_dn ! i ! j))
                      [0..<w]) [0..<h])"
    unfolding ndvi_fl_def Let_def
    by (rule np_binop_same[OF reflectance_fl_rect[OF assms(2)] reflectance_fl_rect[OF assms(1)]])
  also have "\<dots> = Inr (map (\<lambda>i. map (\<lambda>j. ndvi_px_fl rnd (rnd (rnd (real_of_int (red_dn ! i ! j)) / 10000))
                                      (rnd (rnd (real_of_int (nir_dn ! i ! j)) / 10000))) [0..<w]) [0..<h])"
    using assms by (simp add: reflectance_fl_def rect_length rect_nth cong: map_cong)
  finally show ?thesis .
qed

lemma ndvi_fl_exact: "ndvi_fl exact red_dn nir_dn = ndvi red_dn nir_dn"
proof -
  have r: "reflectance_fl exact dn = reflectance dn" for dn
    by (simp add: reflectance_fl_def reflectance_def exact_def)
  have p: "ndvi_px_fl exact r n = ndvi_px r n" for r n
    by (simp add: ndvi_px_fl_def ndvi_px_def r_div_def r_sub_def r_add_def np_sub_def
        round_fin_exact) (simp add: exact_def)
  show ?thesis by (simp add: ndvi_fl_def ndvi_def r p)
qed


text \<open>
  Claim C8. For red and near-infrared windows of non-negative digital numbers, every
  pixel of the vegetation index \<open>(nir - red) / (nir + red + 1e-10)\<close> is a number between
  \<open>-1\<close> and \<open>1\<close>, whatever the rounding of the float32 operations. Pointwise, with
  \<open>e\<close> the float32 of \<open>1e-10\<close>: for \<open>red = nir\<close> the index is 0; for \<open>red = 0\<close> and a
  float \<open>nir > 0\<close> it lies within \<open>e / (nir + e) + 2u / (1 - u)\<close> of 1, and for \<open>nir = 0\<close>
  and a float \<open>red > 0\<close> within \<open>e / (red + e) + 2u / (1 - u)\<close> of \<open>-1\<close>, where \<open>u\<close> bounds
  the relative error of the two roundings involved (\<open>2^-24\<close> in float32).
\<close>

theorem ndvi_bounded:
  assumes "rounding rnd" "0 < rnd eps"
    and "rect hr wr red_dn" "rect hn wn nir_dn"
    and "\<forall>x \<in> set (concat red_dn). 0 \<le> x" "\<forall>x \<in> set (concat nir_dn). 0 \<le> x"
    and "ndvi_fl rnd red_dn nir_dn = Inr nd"
  shows "(\<forall>v \<in> set (concat nd). \<exists>x. v = Fin x \<and> - 1 \<le> x \<and> x \<le> 1) \<and>
         (\<forall>red nir. 0 \<le> red \<and> 0 \<le> nir \<longrightarrow> (\<exists>x. ndvi_px_fl rnd red nir = Fin x \<and> - 1 \<le> x \<and> x \<le> 1)) \<and>
         (\<forall>x. 0 \<le> x \<longrightarrow> ndvi_px_fl rnd x x = Fin 0) \<and>
         (\<forall>nir u. 0 < nir \<and> rnd nir = nir \<and> 0 \<le> u \<and> u < 1 \<and>
            rel_err rnd u (nir + rnd eps) \<and> rel_err rnd u (nir / rnd (nir + rnd eps)) \<longrightarrow>
            (\<exists>x. ndvi_px_fl rnd 0 nir = Fin x \<and>
                 \<bar>x - 1\<bar> \<le> rnd eps / (nir + rnd eps) + 2 * u / (1 - u))) \<and>
         (\<forall>red u. 0 < red \<and> rnd red = red \<and> 0 \<le> u \<and> u < 1 \<and>
            rel_err rnd u (red + rnd eps) \<and> rel_err rnd u (red / rnd (red + rnd eps)) \<longrightarrow>
            (\<exists>x. ndvi_px_fl rnd red 0 = Fin x \<and>
                 \<bar>x + 1\<bar> \<le> rnd eps / (red + rnd eps) + 2 * u / (1 - u)))"
proof -
  have 1: "\<forall>v \<in> set (concat nd). \<exists>x. v = Fin x \<and> - 1 \<le> x \<and> x \<le> 1"
  proof
    fix v assume "v \<in> set (concat nd)"
    with assms(7) obtain n r where n: "n \<in> set (concat (reflectance_fl rnd nir_dn))"
      and r: "r \<in> set (concat (reflectance_fl rnd red_dn))" and v: "v = ndvi_px_fl rnd r n"
      using np_binop_px[OF reflectance_fl_rect[OF assms(4)] reflectance_fl_rect[OF assms(3)], of _ rnd rnd nd v]
      unfolding ndvi_fl_def Let_def by blast
    have "0 \<le> n" using reflectance_fl_nonneg[OF assms(1) assms(6) n] .
    moreover have "0 \<le> r" using reflectance_fl_nonneg[OF assms(1) assms(5) r] .
    ultimately show "\<exists>x. v = Fin x \<and> - 1 \<le> x \<and> x \<le> 1"
      using ndvi_px_fl_range[OF assms(1,2), of r n] v by auto
  qed
  have 2: "\<forall>red nir. 0 \<le> red \<and> 0 \<le> nir \<longrightarrow> (\<exists>x. ndvi_px_fl rnd red nir = Fin x \<and> - 1 \<le> x \<and> x \<le> 1)"
    using ndvi_px_fl_range[OF assms(1,2)] by blast
  have 3: "\<forall>x. 0 \<le> x \<longrightarrow> ndvi_px_fl rnd x x = Fin 0"
    using ndvi_px_fl_equal[OF assms(1,2)] by blast
  have 4: "\<forall>nir u. 0 < nir \<and> rnd nir = nir \<and> 0 \<le> u \<and> u < 1 \<and>
            rel_err rnd u (nir + rnd eps) \<and> rel_err rnd u (nir / rnd (nir + rnd eps)) \<longrightarrow>
            (\<exists>x. ndvi_px_fl rnd 0 nir = Fin x \<and>
                 \<bar>x - 1\<bar> \<le> rnd eps / (nir + rnd eps) + 2 * u / (1 - u))"
    using ndvi_px_fl_red0[OF assms(1,2)] by blast
  have 5: "\<forall>red u. 0 < red \<and> rnd red = red \<and> 0 \<le> u \<and> u < 1 \<and>
            rel_err rnd u (red + rnd eps) \<and> rel_err rnd u (red / rnd (red + rnd eps)) \<longrightarrow>
            (\<exists>x. ndvi_px_fl rnd red 0 = Fin x \<and>
                 \<bar>x + 1\<bar> \<le> rnd eps / (red + rnd eps) + 2 * u / (1 - u))"
    using ndvi_px_fl_nir0[OF assms(1,2)] by blast
  show ?thesis using 1 2 3 4 5 by blast
qed

theorem ndvi_bounded_witness:
  "rounding exact \<and> 0 < exact eps \<and>
   rect 1 2 [[0, 2000::int]] \<and> rect 1 2 [[3000, 2000::int]] \<and>
   ndvi_fl exact [[0, 2000]] [[3000, 2000]] =
     Inr [[ndvi_px_fl exact 0 (3 / 10), ndvi_px_fl exact (1 / 5) (1 / 5)]] \<and>
   (\<exists>x. ndvi_px_fl exact 0 (3 / 10) = Fin x \<and> - 1 \<le> x \<and> x \<le> 1) \<and>
   (\<exists>x. ndvi_px_fl exact 0 (3 / 10) = Fin x \<and> \<bar>x - 1\<bar> \<le> eps / (3 / 10 + eps)) \<and>
   ndvi_px_fl exact (1 / 5) (1 / 5) = Fin 0"
proof -
  have r1: "rect 1 2 [[0, 2000::int]]" and r2: "rect 1 2 [[3000, 2000::int]]"
    by (simp_all add: rect_def)
  have p: "0 < exact eps" by (simp add: exact_def eps_pos)
  have e: "ndvi_fl exact [[0, 2000]] [[3000, 2000]] =
      Inr [[ndvi_px_fl exact 0 (3 / 10), ndvi_px_fl exact (1 / 5) (1 / 5)]]"
    by (simp add: ndvi_fl_same[OF r1 r2] upt_4 exact_def)
  have n1: "\<forall>x \<in> set (concat [[0, 2000::int]]). 0 \<le> x" and n2: "\<forall>x \<in> set (concat [[3000, 2000::int]]). 0 \<le> x"
    by simp_all
  note t = ndvi_bounded[OF rounding_exact p r1 r2 n1 n2 e]
  have a: "\<exists>x. ndvi_px_fl exact 0 (3 / 10) = Fin x \<and> - 1 \<le> x \<and> x \<le> 1" using t by simp
  have h: "0 < (3 / 10 :: real) \<and> exact (3 / 10) = 3 / 10 \<and> (0::real) \<le> 0 \<and> (0::real) < 1 \<and>
      rel_err exact 0 (3 / 10 + exact eps) \<and> rel_err exact 0 ((3 / 10) / exact (3 / 10 + exact eps))"
    by (simp add: rel_err_def exact_def)
  from t have "\<forall>nir u. 0 < nir \<and> exact nir = nir \<and> 0 \<le> u \<and> u < 1 \<and>
            rel_err exact u (nir + exact eps) \<and> rel_err exact u (nir / exact (nir + exact eps)) \<longrightarrow>
            (\<exists>x. ndvi_px_fl exact 0 nir = Fin x \<and>
                 \<bar>x - 1\<bar> \<le> exact eps / (nir + exact eps) + 2 * u / (1 - u))" by blast
  from this[rule_format, OF h]
  have b: "\<exists>x. ndvi_px_fl exact 0 (3 / 10) = Fin x \<and> \<bar>x - 1\<bar> \<le> eps / (3 / 10 + eps)"
    by (simp add: exact_def)
  have c: "ndvi_px_fl exact (1 / 5) (1 / 5) = Fin 0" using t by simp
  show ?thesis using rounding_exact p r1 r2 e a b c by blast
qed
section \<open>Properties of the texture step\<close>

lemma np_le_trans:
  "\<not> isnan a \<Longrightarrow> \<not> isnan b \<Longrightarrow> \<not> isnan c \<Longrightarrow> \<not> np_less b a \<Longrightarrow> \<not> np_less c b \<Longrightarrow> \<not> np_less c a"
  by (cases a; cases b; cases c) (simp_all add: isnan_def)

lemma np_less_antisym:
  "\<not> isnan a \<Longrightarrow> \<not> isnan b \<Longrightarrow> \<not> np_less a b \<Longrightarrow> \<not> np_less b a \<Longrightarrow> a = b"
  by (cases a; cases b) (simp_all add: isnan_def)

lemma np_less_asym: "np_less a b \<Longrightarrow> \<not> np_less b a"
  by (cases a; cases b) simp_all

lemma np_less_irrefl: "\<not> np_less a a"
  by (cases a) simp_all

lemma fold_min_props:
  assumes "\<not> isnan v" "\<forall>x \<in> set vs. \<not> isnan x"
  shows "fold (\<lambda>x acc. if np_less x acc then x else acc) vs v \<in> set (v # vs) \<and>
         (\<forall>x \<in> set (v # vs). \<not> np_less x (fold (\<lambda>x acc. if np_less x acc then x else acc) vs v))"
  using assms
proof (induction vs arbitrary: v)
  case Nil
  then show ?case by (simp add: np_less_irrefl)
next
  case (Cons x vs)
  let ?f = "\<lambda>x acc. if np_less x acc then x else acc"
  let ?a = "?f x v"
  let ?r = "fold ?f vs ?a"
  have nx: "\<not> isnan x" and nvs: "\<forall>y \<in> set vs. \<not> isnan y" using Cons.prems(2) by simp_all
  have na: "\<not> isnan ?a" using Cons.prems(1) nx by simp
  from Cons.IH[OF na nvs] have mem: "?r \<in> set (?a # vs)"
    and lb: "\<forall>y \<in> set (?a # vs). \<not> np_less y ?r" by blast+
  have nr: "\<not> isnan ?r" using mem na nvs by auto
  have ar: "\<not> np_less ?a ?r" using lb by simp
  have av: "\<not> np_less v ?a" by (simp add: np_less_asym np_less_irrefl)
  have ax: "\<not> np_less x ?a" by (simp add: np_less_irrefl)
  have 1: "\<not> np_less v ?r" using np_le_trans[OF nr na Cons.prems(1) ar av] .
  have 2: "\<not> np_less x ?r" using np_le_trans[OF nr na nx ar ax] .
  have 3: "?r \<in> set (v # x # vs)" using mem by auto
  show ?case using 1 2 3 lb by simp
qed

lemma fold_max_props:
  assumes "\<not> isnan v" "\<forall>x \<in> set vs. \<not> isnan x"
  shows "fold (\<lambda>x acc. if np_less acc x then x else acc) vs v \<in> set (v # vs) \<and>
         (\<forall>x \<in> set (v # vs). \<not> np_less (fold (\<lambda>x acc. if np_less acc x then x else acc) vs v) x)"
  using assms
proof (induction vs arbitrary: v)
  case Nil
  then show ?case by (simp add: np_less_irrefl)
next
  case (Cons x vs)
  let ?f = "\<lambda>x acc. if np_less acc x then x else acc"
  let ?a = "?f x v"
  let ?r = "fold ?f vs ?a"
  have nx: "\<not> isnan x" and nvs: "\<forall>y \<in> set vs. \<not> isnan y" using Cons.prems(2) by simp_all
  have na: "\<not> isnan ?a" using Cons.prems(1) nx by simp
  from Cons.IH[OF na nvs] have mem: "?r \<in> set (?a # vs)"
    and ub: "\<forall>y \<in> set (?a # vs). \<not> np_less ?r y" by blast+
  have nr: "\<not> isnan ?r" using mem na nvs by auto
  have ar: "\<not> np_less ?r ?a" using ub by simp
  have av: "\<not> np_less ?a v" by (simp add: np_less_asym np_less_irrefl)
  have ax: "\<not> np_less ?a x" by (simp add: np_less_irrefl)
  have 1: "\<not> np_less ?r v" using np_le_trans[OF Cons.prems(1) na nr av ar] .
  have 2: "\<not> np_less ?r x" using np_le_trans[OF nx na nr ax ar] .
  have 3: "?r \<in> set (v # x # vs)" using mem by auto
  show ?case using 1 2 3 ub by simp
qed

lemma filter_notnan_set: "set (filter (\<lambda>v. \<not> isnan v) xs) = {x \<in> set xs. \<not> isnan x}"
  by auto

lemma np_nanmin_props:
  assumes "np_nanmin xs = Inr m"
  shows "xs \<noteq> []"
    and "isnan m \<Longrightarrow> \<forall>x \<in> set xs. isnan x"
    and "\<not> isnan m \<Longrightarrow> m \<in> set xs \<and> (\<forall>x \<in> set xs. \<not> isnan x \<longrightarrow> \<not> np_less x m)"
proof -
  show ne: "xs \<noteq> []" using assms by (auto simp: np_nanmin_def split: if_splits)
  let ?ys = "filter (\<lambda>v. \<not> isnan v) xs"
  show "\<forall>x \<in> set xs. isnan x" if n: "isnan m"
  proof (cases ?ys)
    case Nil
    then have "{x \<in> set xs. \<not> isnan x} = {}" using filter_notnan_set[of xs] by simp
    then show ?thesis by blast
  next
    case (Cons v vs)
    then have "v \<in> set ?ys" "set vs \<subseteq> set ?ys" by auto
    then have nn: "\<not> isnan v" "\<forall>x \<in> set vs. \<not> isnan x" by auto
    from assms ne Cons have "m = fold (\<lambda>x acc. if np_less x acc then x else acc) vs v"
      by (simp add: np_nanmin_def)
    with fold_min_props[OF nn] have "m \<in> set (v # vs)" by simp
    then have "\<not> isnan m" using nn by auto
    with n show ?thesis by simp
  qed
  show "m \<in> set xs \<and> (\<forall>x \<in> set xs. \<not> isnan x \<longrightarrow> \<not> np_less x m)" if n: "\<not> isnan m"
  proof (cases ?ys)
    case Nil
    with assms ne have "m = NaN" by (simp add: np_nanmin_def)
    with n show ?thesis by (simp add: isnan_def)
  next
    case (Cons v vs)
    then have "v \<in> set ?ys" "set vs \<subseteq> set ?ys" by auto
    then have nn: "\<not> isnan v" "\<forall>x \<in> set vs. \<not> isnan x" by auto
    from assms ne Cons have "m = fold (\<lambda>x acc. if np_less x acc then x else acc) vs v"
      by (simp add: np_nanmin_def)
    with fold_min_props[OF nn] have "m \<in> set ?ys" "\<forall>x \<in> set ?ys. \<not> np_less x m"
      unfolding Cons by simp_all
    then show ?thesis by (simp add: filter_notnan_set)
  qed
qed

lemma np_nanmax_props:
  assumes "np_nanmax xs = Inr m"
  shows "xs \<noteq> []"
    and "isnan m \<Longrightarrow> \<forall>x \<in> set xs. isnan x"
    and "\<not> isnan m \<Longrightarrow> m \<in> set xs \<and> (\<forall>x \<in> set xs. \<not> isnan x \<longrightarrow> \<not> np_less m x)"
proof -
  show ne: "xs \<noteq> []" using assms by (auto simp: np_nanmax_def split: if_splits)
  let ?ys = "filter (\<lambda>v. \<not> isnan v) xs"
  show "\<forall>x \<in> set xs. isnan x" if n: "isnan m"
  proof (cases ?ys)
    case Nil
    then have "{x \<in> set xs. \<not> isnan x} = {}" using filter_notnan_set[of xs] by simp
    then show ?thesis by blast
  next
    case (Cons v vs)
    then have "v \<in> set ?ys" "set vs \<subseteq> set ?ys" by auto
    then have nn: "\<not> isnan v" "\<forall>x \<in> set vs. \<not> isnan x" by auto
    from assms ne Cons have "m = fold (\<lambda>x acc. if np_less acc x then x else acc) vs v"
      by (simp add: np_nanmax_def)
    with fold_max_props[OF nn] have "m \<in> set (v # vs)" by simp
    then have "\<not> isnan m" using nn by auto
    with n show ?thesis by simp
  qed
  show "m \<in> set xs \<and> (\<forall>x \<in> set xs. \<not> isnan x \<longrightarrow> \<not> np_less m x)" if n: "\<not> isnan m"
  proof (cases ?ys)
    case Nil
    with assms ne have "m = NaN" by (simp add: np_nanmax_def)
    with n show ?thesis by (simp add: isnan_def)
  next
    case (Cons v vs)
    then have "v \<in> set ?ys" "set vs \<subseteq> set ?ys" by auto
    then have nn: "\<not> isnan v" "\<forall>x \<in> set vs. \<not> isnan x" by auto
    from assms ne Cons have "m = fold (\<lambda>x acc. if np_less acc x then x else acc) vs v"
      by (simp add: np_nanmax_def)
    with fold_max_props[OF nn] have "m \<in> set ?ys" "\<forall>x \<in> set ?ys. \<not> np_less m x"
      unfolding Cons by simp_all
    then show ?thesis by (simp add: filter_notnan_set)
  qed
qed

lemma isnan_eq: "isnan p \<longleftrightarrow> p = NaN"
  by (cases p) (simp_all add: isnan_def)

lemma map_map_cong:
  assumes "\<And>p. p \<in> set (concat img) \<Longrightarrow> f p = g p"
  shows "map (map f) img = map (map g) img"
  using assms by (induction img) auto

lemma concat_map_map: "concat (map (map f) img) = map f (concat img)"
  by (induction img) simp_all

lemma rint_0: "rint 0 = 0"
  by (simp add: rint_def)


lemma img_as_ubyte_ok:
  assumes "concat img \<noteq> []" "\<forall>v \<in> set (concat img). - 1 \<le> v \<and> v \<le> 1"
  shows "img_as_ubyte img = Inr (map (map (\<lambda>v. nat (max 0 (min 255 (rint (v * 255)))))) img)"
proof -
  have "\<not> list_ex (\<lambda>v. v < - 1 \<or> 1 < v) (concat img)"
    using assms(2) unfolding list_ex_iff by (auto simp: not_less)
  then show ?thesis using assms(1) unfolding img_as_ubyte_def by simp
qed

lemma norm_px_degenerate: "p = NaN \<or> p = m \<Longrightarrow> np_div (np_sub p m) (np_sub m m) = NaN"
  by (cases m; cases p) (auto simp: np_sub_def)

lemma degenerate_entries:
  assumes "np_nanmin xs = Inr m" "np_nanmax xs = Inr m" "p \<in> set xs"
  shows "p = NaN \<or> p = m"
proof (cases "isnan m")
  case True
  then show ?thesis using np_nanmin_props(2)[OF assms(1)] assms(3) by (auto simp: isnan_eq)
next
  case False
  show ?thesis
  proof (cases "isnan p")
    case True
    then show ?thesis by (simp add: isnan_eq)
  next
    case np: False
    have "\<not> np_less p m" using np_nanmin_props(3)[OF assms(1) False] assms(3) np by blast
    moreover have "\<not> np_less m p" using np_nanmax_props(3)[OF assms(2) False] assms(3) np by blast
    ultimately show ?thesis using np_less_antisym[OF np False] by blast
  qed
qed

lemma hpairs_zero:
  assumes "\<forall>v \<in> set (concat img). v = 0" "p \<in> set (hpairs img)"
  shows "p = (0, 0)"
proof -
  from assms(2) obtain row where row: "row \<in> set img" "p \<in> set (zip row (tl row))"
    by (auto simp: hpairs_def)
  obtain a b where p: "p = (a, b)" by (cases p)
  have "a \<in> set row" using row(2) p by (auto dest: set_zip_leftD)
  moreover have "b \<in> set (tl row)" using row(2) p by (auto dest: set_zip_rightD)
  then have "b \<in> set row" by (cases row) auto
  ultimately show ?thesis using assms(1) row(1) p by auto
qed

lemma contrast_zero_img:
  assumes "\<forall>v \<in> set (concat img). v = 0"
  shows "graycoprops_contrast (graycomatrix img) = 0"
proof -
  have tm: "graycomatrix img i j * (real i - real j)\<^sup>2 = 0" for i j
  proof (cases "i = j")
    case True
    then show ?thesis by simp
  next
    case False
    have "filter (\<lambda>p. p = (i, j)) (hpairs img) = []" "filter (\<lambda>p. p = (j, i)) (hpairs img) = []"
      using hpairs_zero[OF assms] False by (auto simp: filter_empty_conv)
    then show ?thesis by (simp add: graycomatrix_def Let_def)
  qed
  show ?thesis unfolding graycoprops_contrast_def by (simp add: tm)
qed

lemma texture_degenerate:
  assumes "np_nanmin (concat patch) = Inr m" "np_nanmax (concat patch) = Inr m"
  shows "norm_patch patch = Inr (map (map (\<lambda>_. NaN)) patch)"
    and "texture_step patch = Inr (map (map (\<lambda>_. 0)) patch, 0)"
proof -
  have ne: "concat patch \<noteq> []" using np_nanmin_props(1)[OF assms(1)] .
  have "map (map (\<lambda>p. np_div (np_sub p m) (np_sub m m))) patch = map (map (\<lambda>_. NaN)) patch"
    using degenerate_entries[OF assms] norm_px_degenerate by (intro map_map_cong) blast
  then show n: "norm_patch patch = Inr (map (map (\<lambda>_. NaN)) patch)"
    using assms by (simp add: norm_patch_def)
  let ?z = "map (map (\<lambda>_. 0::real)) patch"
  have z: "map (map (nan_to_num 0)) (map (map (\<lambda>_. NaN)) patch) = ?z"
    by (simp add: nan_to_num_def comp_def)
  have "img_as_ubyte ?z = Inr (map (map (\<lambda>v. nat (max 0 (min 255 (rint (v * 255)))))) ?z)"
    using ne by (intro img_as_ubyte_ok) (simp_all add: concat_map_map)
  also have "\<dots> = Inr (map (map (\<lambda>_. 0)) patch)" by (simp add: comp_def rint_0)
  finally have u: "patch_uint8 patch = Inr (map (map (\<lambda>_. 0)) patch)"
    by (simp add: patch_uint8_def n nan_to_num_def comp_def)
  have "graycoprops_contrast (graycomatrix (map (map (\<lambda>_. 0)) patch)) = 0"
    by (rule contrast_zero_img) (simp add: concat_map_map)
  then show "texture_step patch = Inr (map (map (\<lambda>_. 0)) patch, 0)"
    by (simp add: texture_step_def u)
qed

text \<open>
  Claim C6, as the code has it. When the sub-window has zero dynamic range (\<open>nanmax\<close>
  and \<open>nanmin\<close> return the same value) the texture step does not fail: the
  normalisation divides 0 by 0 and is \<open>NaN\<close> at every pixel, \<open>nan_to_num\<close> turns that
  into 0, the quantised patch is 0 everywhere and the contrast is 0.
\<close>

theorem texture_zero_range:
  assumes "np_nanmin (concat patch) = Inr m" "np_nanmax (concat patch) = Inr m"
  shows "norm_patch patch = Inr (map (map (\<lambda>_. NaN)) patch) \<and>
         texture_step patch = Inr (map (map (\<lambda>_. 0)) patch, 0)"
  using texture_degenerate[OF assms] by simp

theorem texture_zero_range_witness:
  "np_nanmin (concat [[Fin 1, Fin 1], [NaN, Fin 1]]) = Inr (Fin 1) \<and>
   np_nanmax (concat [[Fin 1, Fin 1], [NaN, Fin 1]]) = Inr (Fin 1) \<and>
   texture_step [[Fin 1, Fin 1], [NaN, Fin 1]] = Inr ([[0, 0], [0, 0]], 0)"
proof -
  have a: "np_nanmin (concat [[Fin 1, Fin 1], [NaN, Fin 1]]) = Inr (Fin 1)"
    and b: "np_nanmax (concat [[Fin 1, Fin 1], [NaN, Fin 1]]) = Inr (Fin 1)"
    by (simp_all add: np_nanmin_def np_nanmax_def isnan_def)
  from texture_zero_range[OF a b] a b show ?thesis by simp
qed

theorem texture_zero_range_counterexample:
  "np_nanmin (concat [[Fin 1, Fin 1], [Fin 1, Fin 1]]) = Inr (Fin 1) \<and>
   np_nanmax (concat [[Fin 1, Fin 1], [Fin 1, Fin 1]]) = Inr (Fin 1) \<and>
   texture_step [[Fin 1, Fin 1], [Fin 1, Fin 1]] = Inr ([[0, 0], [0, 0]], 0)"
proof -
  have a: "np_nanmin (concat [[Fin 1, Fin 1], [Fin 1, Fin 1]]) = Inr (Fin 1)"
    and b: "np_nanmax (concat [[Fin 1, Fin 1], [Fin 1, Fin 1]]) = Inr (Fin 1)"
    by (simp_all add: np_nanmin_def np_nanmax_def isnan_def)
  from texture_degenerate(2)[OF a b] a b show ?thesis by simp
qed















end
